theory Spec2Isabelle
  imports Main "HOL-Library.AList" "HOL-Library.Sublist"
begin

section \<open>Configuration documents\<close>

text \<open>
  A configuration document is what \<^verbatim>\<open>JSON.parse\<close> or \<^verbatim>\<open>parseSimpleToml\<close> returns: a
  JavaScript value built from null, booleans, numbers, strings, arrays and plain objects.
  An object is an association list in insertion order, which is the order
  \<^verbatim>\<open>Object.entries\<close> and the spread \<^verbatim>\<open>{...o}\<close> enumerate.

  The own properties are the list. The prototype of every object that the program is
  given is \<^verbatim>\<open>Object.prototype\<close>, as the engine starts it: a read of a name that is not an own
  property finds the properties of \<^verbatim>\<open>Object.prototype\<close> (\<open>prototype_names\<close> below), and an
  assignment to \<^verbatim>\<open>__proto__\<close> runs its setter instead of adding a property.

  Boundaries of the model:
  \<^item> a string is a list of code units below 256;
  \<^item> numbers are the integers that JavaScript holds exactly (magnitude at most \<open>2^53\<close>);
  \<^item> a list stands for an object whose keys enumerate in the order of the list. JavaScript
    enumerates integer-like keys before the others; where a function adds such a key
    after other keys, the list of the model has it at the end. Lookups, the set of keys
    and the values do not depend on it.
\<close>

datatype jv =
    JNull
  | JBool bool
  | JNum int
  | JStr string
  | JArr "jv list"
  | JObj "(string \<times> jv) list"

type_synonym obj = "(string \<times> jv) list"

text \<open>The own property \<open>k\<close> of an object, or \<open>None\<close> when it has none.\<close>

definition obj_get :: "obj \<Rightarrow> string \<Rightarrow> jv option" where
  "obj_get ob k = map_of ob k"

text \<open>The property names of \<^verbatim>\<open>Object.prototype\<close>. A read \<^verbatim>\<open>o[k]\<close> of such a name on an
  object that has no own property \<open>k\<close> gives a built-in function, and for \<^verbatim>\<open>__proto__\<close>
  the object \<^verbatim>\<open>Object.prototype\<close> itself; all of them are truthy.\<close>

definition prototype_names :: "string list" where
  "prototype_names =
     [''constructor'', ''__defineGetter__'', ''__defineSetter__'', ''hasOwnProperty'',
      ''__lookupGetter__'', ''__lookupSetter__'', ''isPrototypeOf'', ''propertyIsEnumerable'',
      ''toString'', ''valueOf'', ''__proto__'', ''toLocaleString'']"

text \<open>Defining an own property, as an object literal with a computed key
  \<^verbatim>\<open>{[k]: v}\<close> and the spread \<^verbatim>\<open>{...o}\<close> do, for every name: the value of an existing
  key is replaced where it stands, a new key is added.\<close>

definition define_prop :: "(string \<times> 'a) list \<Rightarrow> string \<Rightarrow> 'a \<Rightarrow> (string \<times> 'a) list" where
  "define_prop ob k v = AList.update k v ob"

text \<open>The assignment \<^verbatim>\<open>o[k] = v\<close>. For \<^verbatim>\<open>__proto__\<close> on an object without an own property of
  that name it runs the setter of \<^verbatim>\<open>Object.prototype\<close>, which changes the prototype of \<open>o\<close>
  (when \<open>v\<close> is an object) and adds no property: the own properties stay as they are.
  The functions modelled here read no inherited property of such an object. Every other
  name, and \<^verbatim>\<open>__proto__\<close> when it is an own property, is defined as above.\<close>

definition obj_set :: "(string \<times> 'a) list \<Rightarrow> string \<Rightarrow> 'a \<Rightarrow> (string \<times> 'a) list" where
  "obj_set ob k v =
     (if k = ''__proto__'' \<and> k \<notin> fst ` set ob then ob else define_prop ob k v)"

text \<open>\<^verbatim>\<open>delete o[k]\<close>.\<close>

definition obj_delete :: "obj \<Rightarrow> string \<Rightarrow> obj" where
  "obj_delete ob k = AList.delete k ob"

text \<open>\<^verbatim>\<open>Object.prototype.hasOwnProperty.call(o, k)\<close>.\<close>

definition hasOwnProperty :: "obj \<Rightarrow> string \<Rightarrow> bool" where
  "hasOwnProperty ob k = (k \<in> fst ` set ob)"

text \<open>JavaScript's truthiness and \<^verbatim>\<open>typeof v === "object"\<close>.\<close>

fun truthy :: "jv \<Rightarrow> bool" where
  "truthy JNull = False"
| "truthy (JBool b) = b"
| "truthy (JNum n) = (n \<noteq> 0)"
| "truthy (JStr s) = (s \<noteq> [])"
| "truthy (JArr xs) = True"
| "truthy (JObj ob) = True"

fun typeof_object :: "jv \<Rightarrow> bool" where
  "typeof_object JNull = True"
| "typeof_object (JArr xs) = True"
| "typeof_object (JObj ob) = True"
| "typeof_object v = False"

text \<open>Decimal numerals, for array indices used as property names and for numbers in
  template literals.\<close>

definition digit_char :: "nat \<Rightarrow> char" where
  "digit_char d = char_of (48 + d)"

function dec_of_nat :: "nat \<Rightarrow> string" where
  "dec_of_nat n =
     (if n < 10 then [digit_char n] else dec_of_nat (n div 10) @ [digit_char (n mod 10)])"
  by pat_completeness auto
termination
  by (relation "measure id") auto

declare dec_of_nat.simps [simp del]

definition dec_of_int :: "int \<Rightarrow> string" where
  "dec_of_int i = (if i < 0 then CHR ''-'' # dec_of_nat (nat (- i)) else dec_of_nat (nat i))"

text \<open>The own enumerable properties that a spread \<^verbatim>\<open>{...v}\<close> copies: the entries of an
  object, the elements of an array under their indices.\<close>

fun own_entries :: "jv \<Rightarrow> obj" where
  "own_entries (JObj ob) = ob"
| "own_entries (JArr xs) = zip (map dec_of_nat [0..<length xs]) xs"
| "own_entries v = []"

subsection \<open>Server descriptors\<close>

text \<open>The fields \<^verbatim>\<open>mergeServers\<close> reads of an incoming server. \<open>None\<close> is a field that
  is absent (undefined).\<close>

record server =
  name :: string
  command :: jv
  args :: "jv option"
  type :: "jv option"

text \<open>
  \<^verbatim>\<open>const serverConfig = { command: server.command, args: server.args || [] };
  if (server.type) { serverConfig.type = server.type; }\<close>
\<close>

definition serverConfig :: "server \<Rightarrow> jv" where
  "serverConfig s =
     JObj ([(''command'', command s),
            (''args'', (case args s of
                          None \<Rightarrow> JArr []
                        | Some a \<Rightarrow> if truthy a then a else JArr []))]
           @ (case type s of
                None \<Rightarrow> []
              | Some t \<Rightarrow> if truthy t then [(''type'', t)] else []))"

subsection \<open>mergeServers\<close>

text \<open>
  \<^verbatim>\<open>existing[serverKey] && typeof existing[serverKey] === "object"
     ? existing[serverKey] : <dflt>\<close>
  as used by both functions; \<open>None\<close> stands for the default of the caller. When the
  document has no own property \<open>serverKey\<close>, the read goes to \<^verbatim>\<open>Object.prototype\<close>: the
  name \<^verbatim>\<open>__proto__\<close> gives \<^verbatim>\<open>Object.prototype\<close> itself, an object with no enumerable own
  property (here the empty object: both functions only spread it); the other names there
  give functions, whose \<^verbatim>\<open>typeof\<close> is not \<^verbatim>\<open>"object"\<close>; any other name gives undefined.
\<close>

definition existingServers :: "obj \<Rightarrow> string \<Rightarrow> jv option" where
  "existingServers existing serverKey =
     (case obj_get existing serverKey of
        None \<Rightarrow> if serverKey = ''__proto__'' then Some (JObj []) else None
      | Some v \<Rightarrow> if truthy v \<and> typeof_object v then Some v else None)"

text \<open>\<^verbatim>\<open>merged[serverKey][server.name] = serverConfig\<close>: an assignment into the section
  object, which \<open>merged\<close> holds as its own property \<open>serverKey\<close> (the literal that built
  \<open>merged\<close> defined it). The section is changed in place; on values, \<open>merged\<close> holds the
  changed section where the section was.\<close>

definition assign_in_section :: "obj \<Rightarrow> string \<Rightarrow> string \<Rightarrow> jv \<Rightarrow> obj" where
  "assign_in_section merged serverKey n v =
     (case obj_get merged serverKey of
        Some (JObj sec) \<Rightarrow> define_prop merged serverKey (JObj (obj_set sec n v))
      | _ \<Rightarrow> merged)"

fun merge_loop :: "obj \<Rightarrow> string \<Rightarrow> server list \<Rightarrow> obj" where
  "merge_loop merged serverKey [] = merged"
| "merge_loop merged serverKey (s # incoming) =
     merge_loop (assign_in_section merged serverKey (name s) (serverConfig s)) serverKey incoming"

definition mergeServers :: "obj \<Rightarrow> server list \<Rightarrow> string \<Rightarrow> obj" where
  "mergeServers existing incoming serverKey =
     (let es = (case existingServers existing serverKey of None \<Rightarrow> JObj [] | Some v \<Rightarrow> v);
          merged = define_prop existing serverKey (JObj (own_entries es))
      in merge_loop merged serverKey incoming)"

subsection \<open>removeServers\<close>

record removal =
  updated :: obj
  removed :: nat

fun remove_loop :: "obj \<Rightarrow> nat \<Rightarrow> string list \<Rightarrow> obj \<times> nat" where
  "remove_loop updatedServers n [] = (updatedServers, n)"
| "remove_loop updatedServers n (nm # removeNames) =
     (if hasOwnProperty updatedServers nm
      then remove_loop (obj_delete updatedServers nm) (Suc n) removeNames
      else remove_loop updatedServers n removeNames)"

definition removeServers :: "obj \<Rightarrow> string list \<Rightarrow> string \<Rightarrow> removal" where
  "removeServers existing removeNames serverKey =
     (case existingServers existing serverKey of
        None \<Rightarrow> \<lparr>updated = existing, removed = 0\<rparr>
      | Some es \<Rightarrow>
          (case remove_loop (own_entries es) 0 removeNames of
             (updatedServers, n) \<Rightarrow>
               if n = 0 then \<lparr>updated = existing, removed = 0\<rparr>
               else if length updatedServers = 0
                 then \<lparr>updated = obj_delete existing serverKey, removed = n\<rparr>
                 else \<lparr>updated = obj_set existing serverKey (JObj updatedServers),
                       removed = n\<rparr>))"

text \<open>The entries of the \<open>serverKey\<close> section as \<^verbatim>\<open>removeServers\<close> sees them: none when
  the key is absent or holds no object.\<close>

definition section_entries :: "obj \<Rightarrow> string \<Rightarrow> obj" where
  "section_entries existing serverKey =
     (case existingServers existing serverKey of None \<Rightarrow> [] | Some v \<Rightarrow> own_entries v)"

text \<open>The invariant of a server section: the key is absent, or it holds a non-empty
  mapping.\<close>

definition section_invariant :: "obj \<Rightarrow> string \<Rightarrow> bool" where
  "section_invariant d k =
     (case obj_get d k of None \<Rightarrow> True | Some (JObj sec) \<Rightarrow> sec \<noteq> [] | Some _ \<Rightarrow> False)"

section \<open>The minimal TOML format\<close>

subsection \<open>Strings\<close>

text \<open>White space as \<^verbatim>\<open>String.prototype.trim\<close> and the regular expression class \<^verbatim>\<open>\s\<close>
  see it (tab, line feed, vertical tab, form feed, carriage return, space, no-break space),
  the word characters of \<^verbatim>\<open>\w\<close>, and the line terminators that \<^verbatim>\<open>.\<close> does not match.\<close>

definition is_space :: "char \<Rightarrow> bool" where
  "is_space c = (of_char c \<in> {9, 10, 11, 12, 13, 32, 160 :: nat})"

definition is_word :: "char \<Rightarrow> bool" where
  "is_word c =
     (let n = of_char c :: nat
      in (48 \<le> n \<and> n \<le> 57) \<or> (65 \<le> n \<and> n \<le> 90) \<or> n = 95 \<or> (97 \<le> n \<and> n \<le> 122))"

definition is_line_terminator :: "char \<Rightarrow> bool" where
  "is_line_terminator c = (of_char c \<in> {10, 13 :: nat})"

definition trim :: "string \<Rightarrow> string" where
  "trim s = rev (dropWhile is_space (rev (dropWhile is_space s)))"

definition startsWith :: "string \<Rightarrow> string \<Rightarrow> bool" where
  "startsWith s p = (take (length p) s = p)"

definition endsWith :: "string \<Rightarrow> string \<Rightarrow> bool" where
  "endsWith s p = (length p \<le> length s \<and> drop (length s - length p) s = p)"

text \<open>\<^verbatim>\<open>s.slice(1, -1)\<close>.\<close>

definition slice_1_m1 :: "string \<Rightarrow> string" where
  "slice_1_m1 s = butlast (tl s)"

text \<open>\<^verbatim>\<open>s.split(c)\<close> for a separator of one character: never the empty list.\<close>

fun split_on :: "char \<Rightarrow> string \<Rightarrow> string list" where
  "split_on c [] = [[]]"
| "split_on c (x # xs) =
     (if x = c then [] # split_on c xs
      else (case split_on c xs of [] \<Rightarrow> [[x]] | w # ws \<Rightarrow> (x # w) # ws))"

text \<open>\<^verbatim>\<open>parts.join(sep)\<close>.\<close>

fun join :: "string \<Rightarrow> string list \<Rightarrow> string" where
  "join sep [] = []"
| "join sep [x] = x"
| "join sep (x # y # ys) = x @ sep @ join sep (y # ys)"

text \<open>The template literal \<^verbatim>\<open>${v}\<close>, that is \<^verbatim>\<open>String(v)\<close>: an array joins its elements
  with a comma, null elements giving the empty string.\<close>

fun js_string :: "jv \<Rightarrow> string" where
  "js_string JNull = ''null''"
| "js_string (JBool b) = (if b then ''true'' else ''false'')"
| "js_string (JNum n) = dec_of_int n"
| "js_string (JStr s) = s"
| "js_string (JArr xs) = join '','' (map (\<lambda>x. if x = JNull then [] else js_string x) xs)"
| "js_string (JObj ob) = ''[object Object]''"

subsection \<open>The regular expressions of the parser\<close>

text \<open>
  \<^verbatim>\<open>trimmed.match(/^\[([^\]]+)\]$/)\<close>: an opening bracket, one or more characters other
  than a closing bracket, a closing bracket, the end of the string. The result is the
  group.
\<close>

definition tableMatch :: "string \<Rightarrow> string option" where
  "tableMatch t =
     (case t of
        [] \<Rightarrow> None
      | c # rest \<Rightarrow>
          if c = CHR ''['' \<and> rest \<noteq> [] \<and> last rest = CHR '']'' \<and> butlast rest \<noteq> []
             \<and> CHR '']'' \<notin> set (butlast rest)
          then Some (butlast rest) else None)"

text \<open>
  \<^verbatim>\<open>trimmed.match(/^(\w+)\s*=\s*(.+)$/)\<close>. The key is the longest run of word characters
  at the start (a shorter one would be followed by a word character, which is neither
  white space nor the equals sign); the white space before the equals sign is skipped
  whole for the same reason. After the equals sign the greedy \<^verbatim>\<open>\s*\<close> takes all the
  white space; the value is what follows, if it is not empty and holds no line
  terminator. If nothing follows the white space, the matcher backtracks and gives the
  last white space character to the value, unless that is a line terminator. If what
  follows holds a line terminator, no shorter \<^verbatim>\<open>\s*\<close> helps and the match fails.
\<close>

definition kvMatch :: "string \<Rightarrow> (string \<times> string) option" where
  "kvMatch t =
     (let key = takeWhile is_word t
      in if key = [] then None
         else (case dropWhile is_space (dropWhile is_word t) of
                 [] \<Rightarrow> None
               | c # after \<Rightarrow>
                   if c \<noteq> CHR ''='' then None
                   else (let ws = takeWhile is_space after; v = dropWhile is_space after
                         in if v \<noteq> []
                            then (if \<exists>x \<in> set v. is_line_terminator x then None
                                  else Some (key, v))
                            else if ws \<noteq> [] \<and> \<not> is_line_terminator (last ws)
                            then Some (key, [last ws]) else None)))"

text \<open>
  \<^verbatim>\<open>value.match(/\[(.*)\]/)\<close>, not anchored: the first opening bracket that has a closing
  bracket after it with no line terminator in between; the group runs to the last such
  closing bracket.
\<close>

definition close_bracket :: "string \<Rightarrow> string option" where
  "close_bracket cs =
     (let seg = takeWhile (\<lambda>c. \<not> is_line_terminator c) cs
      in if CHR '']'' \<in> set seg
         then Some (rev (tl (dropWhile (\<lambda>c. c \<noteq> CHR '']'') (rev seg))))
         else None)"

fun arrayMatch :: "string \<Rightarrow> string option" where
  "arrayMatch [] = None"
| "arrayMatch (c # cs) =
     (if c = CHR ''[''
      then (case close_bracket cs of Some inner \<Rightarrow> Some inner | None \<Rightarrow> arrayMatch cs)
      else arrayMatch cs)"

subsection \<open>parseSimpleToml\<close>

text \<open>The variables of the loop: \<open>None\<close> is \<^verbatim>\<open>null\<close>.\<close>

record pstate =
  result :: obj
  currentSection :: "string option"
  currentTable :: "string option"

text \<open>
  A header whose section or table name is a property name of \<^verbatim>\<open>Object.prototype\<close> takes
  the parser out of the document. \<^verbatim>\<open>result[section]\<close> or \<^verbatim>\<open>result[section][table]\<close> is then
  an inherited, truthy value: \<^verbatim>\<open>Object.prototype\<close> itself or a built-in function. No own
  property is created for it, and from there on the parser reads and writes properties
  of those shared objects (\<^verbatim>\<open>[constructor.x]\<close> sets \<^verbatim>\<open>Object.x\<close>, \<^verbatim>\<open>[s.__proto__]\<close> makes the
  following lines assign to \<^verbatim>\<open>Object.prototype\<close>) or throws a TypeError
  (\<^verbatim>\<open>[__proto__.__proto__]\<close>). What happens then depends on the built-in objects of the
  engine, which are no part of the program. The model stops at such a header with the
  outcome \<open>Builtin_object\<close> and says nothing about the value returned.
\<close>

datatype parse_stop = Builtin_object string string

text \<open>A string or null used as a condition.\<close>

definition truthy_name :: "string option \<Rightarrow> bool" where
  "truthy_name n = (case n of None \<Rightarrow> False | Some s \<Rightarrow> s \<noteq> [])"

text \<open>\<^verbatim>\<open>!o[k]\<close> for a name that is no property name of \<^verbatim>\<open>Object.prototype\<close>.\<close>

definition falsy_at :: "obj \<Rightarrow> string \<Rightarrow> bool" where
  "falsy_at ob k = (case obj_get ob k of None \<Rightarrow> True | Some v \<Rightarrow> \<not> truthy v)"

text \<open>
  \<^verbatim>\<open>if (!result[section]) result[section] = {};
  if (!result[section][table]) result[section][table] = {};\<close>
  for names that are no property names of \<^verbatim>\<open>Object.prototype\<close> (\<open>parse_line\<close> below calls
  it for those only): both reads find an own property or nothing. The parser only ever
  stores objects under a section, so \<^verbatim>\<open>result[section]\<close> is an object in the second line;
  it is changed in place, and on values the result holds the changed section where the
  section was.
\<close>

definition open_table :: "obj \<Rightarrow> string \<Rightarrow> string \<Rightarrow> obj" where
  "open_table res section table =
     (let r1 = (if falsy_at res section then obj_set res section (JObj []) else res)
      in case obj_get r1 section of
           Some (JObj sec) \<Rightarrow>
             if falsy_at sec table
             then define_prop r1 section (JObj (obj_set sec table (JObj [])))
             else r1
         | _ \<Rightarrow> r1)"

text \<open>\<^verbatim>\<open>result[currentSection][currentTable][key] = v\<close>. The current section and table
  are own properties that a header has created (see \<open>parse_line\<close>), so both objects
  exist; the assignment is to the table object. With the key \<^verbatim>\<open>__proto__\<close> it adds no
  property (see \<open>obj_set\<close>).\<close>

definition assign_in_table :: "obj \<Rightarrow> string \<Rightarrow> string \<Rightarrow> string \<Rightarrow> jv \<Rightarrow> obj" where
  "assign_in_table res section table key v =
     (case obj_get res section of
        Some (JObj sec) \<Rightarrow>
          (case obj_get sec table of
             Some (JObj tab) \<Rightarrow>
               define_prop res section
                 (JObj (define_prop sec table (JObj (obj_set tab key v))))
           | _ \<Rightarrow> res)
      | _ \<Rightarrow> res)"

text \<open>An item of an array: trimmed, and stripped of its quotes if it has both.\<close>

definition parse_item :: "string \<Rightarrow> jv" where
  "parse_item item =
     (let trimmedItem = trim item
      in if startsWith trimmedItem ''\"'' \<and> endsWith trimmedItem ''\"''
         then JStr (slice_1_m1 trimmedItem) else JStr trimmedItem)"

text \<open>The value a key-value line assigns; \<open>None\<close> when it assigns nothing (a value that
  starts with a bracket and has no array in it).\<close>

definition parse_value :: "string \<Rightarrow> jv option" where
  "parse_value v =
     (if startsWith v ''[''
      then (case arrayMatch v of
              None \<Rightarrow> None
            | Some inner \<Rightarrow> Some (JArr (map parse_item (split_on CHR '','' inner))))
      else if startsWith v ''\"'' \<and> endsWith v ''\"'' then Some (JStr (slice_1_m1 v))
      else Some (JStr v))"

text \<open>The body of the loop for one line: the state after it, or the stop.\<close>

definition parse_line :: "pstate \<Rightarrow> string \<Rightarrow> parse_stop + pstate" where
  "parse_line st line =
     (let trimmed = trim line
      in if trimmed = [] \<or> startsWith trimmed ''#'' then Inr st
         else (case tableMatch trimmed of
                 Some inner \<Rightarrow>
                   (case split_on CHR ''.'' inner of
                      [section, table] \<Rightarrow>
                        if section \<in> set prototype_names \<or> table \<in> set prototype_names
                        then Inl (Builtin_object section table)
                        else Inr \<lparr>result = open_table (result st) section table,
                                  currentSection = Some section, currentTable = Some table\<rparr>
                    | _ \<Rightarrow> Inr st)
               | None \<Rightarrow>
                   (case kvMatch trimmed of
                      None \<Rightarrow> Inr st
                    | Some (key, v) \<Rightarrow>
                        if truthy_name (currentSection st) \<and> truthy_name (currentTable st)
                        then (case parse_value v of
                                None \<Rightarrow> Inr st
                              | Some x \<Rightarrow>
                                  Inr (st\<lparr>result := assign_in_table (result st)
                                         (the (currentSection st)) (the (currentTable st)) key x\<rparr>))
                        else Inr st)))"

fun parse_lines :: "pstate \<Rightarrow> string list \<Rightarrow> parse_stop + pstate" where
  "parse_lines st [] = Inr st"
| "parse_lines st (line # lines) =
     (case parse_line st line of
        Inl stop \<Rightarrow> Inl stop
      | Inr st' \<Rightarrow> parse_lines st' lines)"

definition parseSimpleToml :: "string \<Rightarrow> parse_stop + obj" where
  "parseSimpleToml content =
     (case parse_lines \<lparr>result = [], currentSection = None, currentTable = None\<rparr>
             (split_on CHR 0x0A content) of
        Inl stop \<Rightarrow> Inl stop
      | Inr st \<Rightarrow> Inr (result st))"

subsection \<open>stringifySimpleToml\<close>

text \<open>\<^verbatim>\<open>typeof v !== 'object' || v === null\<close>, the test that skips an entry.\<close>

definition not_an_object :: "jv \<Rightarrow> bool" where
  "not_an_object v = (\<not> typeof_object v \<or> v = JNull)"

definition value_line :: "string \<times> jv \<Rightarrow> string" where
  "value_line kv =
     (case kv of
        (key, JArr xs) \<Rightarrow>
          key @ '' = ['' @ join '', '' (map (\<lambda>v. ''\"'' @ js_string v @ ''\"'') xs) @ '']''
      | (key, JStr s) \<Rightarrow> key @ '' = \"'' @ s @ ''\"''
      | (key, v) \<Rightarrow> key @ '' = '' @ js_string v)"

definition table_lines :: "string \<Rightarrow> string \<times> jv \<Rightarrow> string list" where
  "table_lines section tc =
     (case tc of
        (tableName, config) \<Rightarrow>
          if not_an_object config then []
          else (''['' @ section @ ''.'' @ tableName @ '']'')
               # map value_line (own_entries config) @ [[]])"

definition section_lines :: "string \<times> jv \<Rightarrow> string list" where
  "section_lines st =
     (case st of
        (section, tables) \<Rightarrow>
          if not_an_object tables then []
          else concat (map (table_lines section) (own_entries tables)))"

definition stringifySimpleToml :: "obj \<Rightarrow> string" where
  "stringifySimpleToml ob = join [CHR 0x0A] (concat (map section_lines ob))"

subsection \<open>The supported subset of documents\<close>

text \<open>
  The documents that the serializer and the parser carry without loss. A section or table
  name is not empty, holds no dot, no closing bracket and no line feed, and is no
  property name of \<^verbatim>\<open>Object.prototype\<close>; a key is a non-empty run of word characters other
  than \<^verbatim>\<open>__proto__\<close>; a string value holds no line terminator; an array is not empty and
  its elements are strings with no line terminator and no comma; every section has a
  table; and the keys of an object are distinct, as they are in JavaScript.
\<close>

definition name_ok :: "string \<Rightarrow> bool" where
  "name_ok n = (n \<noteq> [] \<and> CHR ''.'' \<notin> set n \<and> CHR '']'' \<notin> set n \<and> CHR 0x0A \<notin> set n
                \<and> n \<notin> set prototype_names)"

definition key_ok :: "string \<Rightarrow> bool" where
  "key_ok k = (k \<noteq> [] \<and> list_all is_word k \<and> k \<noteq> ''__proto__'')"

definition str_ok :: "string \<Rightarrow> bool" where
  "str_ok s = list_all (\<lambda>c. \<not> is_line_terminator c) s"

fun elem_ok :: "jv \<Rightarrow> bool" where
  "elem_ok (JStr e) = (str_ok e \<and> CHR '','' \<notin> set e)"
| "elem_ok v = False"

fun value_ok :: "jv \<Rightarrow> bool" where
  "value_ok (JStr s) = str_ok s"
| "value_ok (JArr xs) = (xs \<noteq> [] \<and> list_all elem_ok xs)"
| "value_ok v = False"

fun table_ok :: "string \<times> jv \<Rightarrow> bool" where
  "table_ok (t, JObj cfg) =
     (name_ok t \<and> distinct (map fst cfg) \<and> list_all (\<lambda>kv. key_ok (fst kv) \<and> value_ok (snd kv)) cfg)"
| "table_ok (t, v) = False"

fun section_ok :: "string \<times> jv \<Rightarrow> bool" where
  "section_ok (s, JObj tabs) =
     (name_ok s \<and> tabs \<noteq> [] \<and> distinct (map fst tabs) \<and> list_all table_ok tabs)"
| "section_ok (s, v) = False"

definition toml_document :: "obj \<Rightarrow> bool" where
  "toml_document d = (distinct (map fst d) \<and> list_all section_ok d)"

text \<open>A string between double quotes, as the serializer writes it.\<close>

definition quote :: "string \<Rightarrow> string" where
  "quote s = ''\"'' @ s @ ''\"''"

text \<open>The document read so far while the tables of section \<open>s\<close> are being read: the
  section appears with its first table.\<close>

definition with_section :: "obj \<Rightarrow> string \<Rightarrow> obj \<Rightarrow> obj" where
  "with_section d s tabs = (if tabs = [] then d else d @ [(s, JObj tabs)])"

subsection \<open>Reading the parser's result\<close>

text \<open>\<^verbatim>\<open>result[section][table][key]\<close>, when it is there.\<close>

definition table_get :: "obj \<Rightarrow> string \<Rightarrow> string \<Rightarrow> string \<Rightarrow> jv option" where
  "table_get res section table key =
     (case obj_get res section of
        Some (JObj sec) \<Rightarrow>
          (case obj_get sec table of Some (JObj tab) \<Rightarrow> obj_get tab key | _ \<Rightarrow> None)
      | _ \<Rightarrow> None)"

text \<open>The shape of every result of the parser: objects under the sections, objects under
  the tables.\<close>

definition parsed_shape :: "obj \<Rightarrow> bool" where
  "parsed_shape res =
     (\<forall>s v. obj_get res s = Some v \<longrightarrow>
        (\<exists>sec. v = JObj sec \<and> (\<forall>t w. obj_get sec t = Some w \<longrightarrow> (\<exists>tab. w = JObj tab))))"

text \<open>A header line that names a property of \<^verbatim>\<open>Object.prototype\<close> as its section or
  its table: the lines at which \<open>parse_line\<close> stops.\<close>

definition names_builtin :: "string \<Rightarrow> bool" where
  "names_builtin line =
     (case tableMatch (trim line) of
        None \<Rightarrow> False
      | Some inner \<Rightarrow>
          (case split_on CHR ''.'' inner of
             [section, table] \<Rightarrow> section \<in> set prototype_names \<or> table \<in> set prototype_names
           | _ \<Rightarrow> False))"

text \<open>\<^verbatim>\<open>parseSimpleToml(content)[section][table][key]\<close>, when the parser returns and it is
  there.\<close>

definition parsed_get :: "parse_stop + obj \<Rightarrow> string \<Rightarrow> string \<Rightarrow> string \<Rightarrow> jv option" where
  "parsed_get r section table key =
     (case r of Inl stop \<Rightarrow> None | Inr res \<Rightarrow> table_get res section table key)"

section \<open>Documents in a store\<close>

text \<open>
  Whether a function mutates its argument is not visible on values. Here the objects live
  in a store: a list of objects, the address of an object being its position. A value is
  a primitive or the address of an object; \<^verbatim>\<open>{...}\<close> and \<^verbatim>\<open>[]\<close> allocate at the end of
  the store; an assignment to a property overwrites the object at its address.
\<close>

type_synonym addr = nat

datatype hv = HNull | HBool bool | HNum int | HStr string | HRef addr

datatype hobject = HObj "(string \<times> hv) list" | HArr "hv list"

type_synonym store = "hobject list"

definition alloc :: "store \<Rightarrow> hobject \<Rightarrow> store \<times> addr" where
  "alloc h ob = (h @ [ob], length h)"

text \<open>The own enumerable properties of the object at an address.\<close>

definition entries_at :: "store \<Rightarrow> addr \<Rightarrow> (string \<times> hv) list" where
  "entries_at h a =
     (if a < length h
      then (case h ! a of
              HObj es \<Rightarrow> es
            | HArr xs \<Rightarrow> zip (map dec_of_nat [0..<length xs]) xs)
      else [])"

fun h_truthy :: "hv \<Rightarrow> bool" where
  "h_truthy HNull = False"
| "h_truthy (HBool b) = b"
| "h_truthy (HNum n) = (n \<noteq> 0)"
| "h_truthy (HStr s) = (s \<noteq> [])"
| "h_truthy (HRef a) = True"

text \<open>\<^verbatim>\<open>existing[serverKey] && typeof existing[serverKey] === "object"\<close> holds of the
  addresses of objects only. The store holds the objects of the program and not
  \<^verbatim>\<open>Object.prototype\<close>, which the read gives for the name \<^verbatim>\<open>__proto__\<close> when the document
  has no such property of its own: both functions then copy an object with no enumerable
  property, as they do here with the default.\<close>

definition existingServers_at :: "store \<Rightarrow> addr \<Rightarrow> string \<Rightarrow> addr option" where
  "existingServers_at h existing serverKey =
     (case map_of (entries_at h existing) serverKey of
        Some (HRef a) \<Rightarrow> Some a
      | _ \<Rightarrow> None)"

record hserver =
  h_name :: string
  h_command :: hv
  h_args :: "hv option"
  h_type :: "hv option"

text \<open>A property defined on the object at an address (a computed key of a literal), the
  assignment \<^verbatim>\<open>o[k] = v\<close>, which adds no property for the name \<^verbatim>\<open>__proto__\<close> when the
  object has none of that name (see \<open>obj_set\<close>), and \<^verbatim>\<open>delete o[k]\<close>.\<close>

definition define_at :: "store \<Rightarrow> addr \<Rightarrow> string \<Rightarrow> hv \<Rightarrow> store" where
  "define_at h a k v = h[a := HObj (AList.update k v (entries_at h a))]"

definition write_prop :: "store \<Rightarrow> addr \<Rightarrow> string \<Rightarrow> hv \<Rightarrow> store" where
  "write_prop h a k v =
     (if k = ''__proto__'' \<and> k \<notin> fst ` set (entries_at h a) then h else define_at h a k v)"

definition delete_prop :: "store \<Rightarrow> addr \<Rightarrow> string \<Rightarrow> store" where
  "delete_prop h a k = h[a := HObj (AList.delete k (entries_at h a))]"

text \<open>One round of the loop of \<^verbatim>\<open>mergeServers\<close>: the literal for \<^verbatim>\<open>serverConfig\<close> (with a
  new empty array when the server has no arguments), the optional \<^verbatim>\<open>type\<close>, and the
  assignment \<^verbatim>\<open>merged[serverKey][server.name] = serverConfig\<close>.\<close>

definition merge_step :: "addr \<Rightarrow> string \<Rightarrow> store \<Rightarrow> hserver \<Rightarrow> store" where
  "merge_step merged serverKey h s =
     (let (h1, a) = (case h_args s of
                       Some v \<Rightarrow> if h_truthy v then (h, v)
                                 else (case alloc h (HArr []) of (h', r) \<Rightarrow> (h', HRef r))
                     | None \<Rightarrow> (case alloc h (HArr []) of (h', r) \<Rightarrow> (h', HRef r)));
          (h2, cfg) = alloc h1 (HObj [(''command'', h_command s), (''args'', a)]);
          h3 = (case h_type s of
                  Some t \<Rightarrow> if h_truthy t then write_prop h2 cfg ''type'' t else h2
                | None \<Rightarrow> h2)
      in case map_of (entries_at h3 merged) serverKey of
           Some (HRef sec) \<Rightarrow> write_prop h3 sec (h_name s) (HRef cfg)
         | _ \<Rightarrow> h3)"

text \<open>\<^verbatim>\<open>mergeServers\<close>: the store after the call and the address of the object returned.\<close>

definition mergeServers_at :: "store \<Rightarrow> addr \<Rightarrow> hserver list \<Rightarrow> string \<Rightarrow> store \<times> addr" where
  "mergeServers_at h existing incoming serverKey =
     (let (h1, es) = (case existingServers_at h existing serverKey of
                        Some a \<Rightarrow> (h, a)
                      | None \<Rightarrow> alloc h (HObj []));
          (h2, merged) = alloc h1 (HObj (entries_at h1 existing));
          (h3, sec) = alloc h2 (HObj (entries_at h2 es));
          h4 = define_at h3 merged serverKey (HRef sec)
      in (foldl (merge_step merged serverKey) h4 incoming, merged))"

text \<open>\<^verbatim>\<open>removeServers\<close>: the store after the call, the address of \<^verbatim>\<open>updated\<close>, and
  \<^verbatim>\<open>removed\<close>.\<close>

definition remove_step :: "addr \<Rightarrow> store \<times> nat \<Rightarrow> string \<Rightarrow> store \<times> nat" where
  "remove_step updatedServers hn nm =
     (case hn of
        (h, n) \<Rightarrow>
          if nm \<in> fst ` set (entries_at h updatedServers)
          then (delete_prop h updatedServers nm, Suc n) else (h, n))"

definition removeServers_at ::
  "store \<Rightarrow> addr \<Rightarrow> string list \<Rightarrow> string \<Rightarrow> store \<times> addr \<times> nat" where
  "removeServers_at h existing removeNames serverKey =
     (case existingServers_at h existing serverKey of
        None \<Rightarrow> (h, existing, 0)
      | Some es \<Rightarrow>
          (let (h1, updatedServers) = alloc h (HObj (entries_at h es));
               (h2, n) = foldl (remove_step updatedServers) (h1, 0) removeNames
           in if n = 0 then (h2, existing, 0)
              else (let (h3, upd) = alloc h2 (HObj (entries_at h2 existing))
                    in if length (entries_at h3 updatedServers) = 0
                       then (delete_prop h3 upd serverKey, upd, n)
                       else (write_prop h3 upd serverKey (HRef updatedServers), upd, n))))"

text \<open>A store extends another when it keeps every object of it as it is.\<close>

definition extends :: "store \<Rightarrow> store \<Rightarrow> bool" where
  "extends h' h = (take (length h) h' = h)"

text \<open>What holds of the store throughout the loop of \<^verbatim>\<open>mergeServers\<close>: the objects of
  the caller are as they were, and \<open>merged\<close> holds the new section under the key.\<close>

definition merging :: "store \<Rightarrow> addr \<Rightarrow> addr \<Rightarrow> string \<Rightarrow> store \<Rightarrow> bool" where
  "merging h0 merged sec k h =
     (extends h h0 \<and> length h0 \<le> merged \<and> length h0 \<le> sec \<and> merged < length h
      \<and> sec \<noteq> merged \<and> map_of (entries_at h merged) k = Some (HRef sec))"

section \<open>Platform and host paths\<close>

text \<open>\<^verbatim>\<open>getPlatform()\<close> returns this record; the functions below take it as an argument.\<close>

record platformInfo =
  platform :: string
  isWindows :: bool
  isMac :: bool
  isLinux :: bool

definition getPlatform :: "string \<Rightarrow> platformInfo" where
  "getPlatform os_platform =
     \<lparr>platform = os_platform, isWindows = (os_platform = ''win32''),
      isMac = (os_platform = ''darwin''), isLinux = (os_platform = ''linux'')\<rparr>"

text \<open>What the functions read of the process: the home directory, two environment
  variables (\<open>None\<close> when unset), and \<^verbatim>\<open>path.join\<close> of the platform, which is Node's and
  is taken as it is.\<close>

record process_env =
  homedir :: string
  APPDATA :: "string option"
  XDG_CONFIG_HOME :: "string option"
  path_join :: "string list \<Rightarrow> string"

text \<open>\<^verbatim>\<open>a || b\<close> on an optional string: an unset or empty \<open>a\<close> gives \<open>b\<close>.\<close>

definition or_else :: "string option \<Rightarrow> string \<Rightarrow> string" where
  "or_else a b = (case a of None \<Rightarrow> b | Some s \<Rightarrow> if s = [] then b else s)"

definition getAppSupportDir :: "process_env \<Rightarrow> platformInfo \<Rightarrow> string" where
  "getAppSupportDir env platformInfo =
     (if isWindows platformInfo
      then or_else (APPDATA env) (path_join env [homedir env, ''AppData'', ''Roaming''])
      else if isMac platformInfo
      then path_join env [homedir env, ''Library'', ''Application Support'']
      else or_else (XDG_CONFIG_HOME env) (path_join env [homedir env, ''.config'']))"

text \<open>A host descriptor, and the overrides it may declare for the global paths on
  Windows and on macOS.\<close>

record overrides =
  o_skillsFolder :: "string option"
  o_mcpConfigFile :: "string option"

record globalPaths =
  Win :: "overrides option"
  macOS :: "overrides option"

record host =
  host_id :: string
  displayName :: string
  skillsFolder :: "string option"
  mcpConfigFile :: "string option"
  mcpServerKey :: string
  host_globalPaths :: "globalPaths option"

record hostPaths =
  hp_name :: string
  mcpConfig :: string
  localMcpConfig :: string
  hp_mcpServerKey :: string
  skillsDir :: string
  localSkillsDir :: string

text \<open>The body of the loop of \<^verbatim>\<open>getIdePaths\<close> for one host.\<close>

definition idePaths :: "process_env \<Rightarrow> string \<Rightarrow> platformInfo \<Rightarrow> host \<Rightarrow> hostPaths" where
  "idePaths env projectRoot platformInfo ide =
     (let home = homedir env;
          appSupport = getAppSupportDir env platformInfo;
          skillsFolder' = or_else (skillsFolder ide) (''.'' @ host_id ide @ ''/skills'');
          mcpConfigFile' = or_else (mcpConfigFile ide) (''.'' @ host_id ide @ ''/mcp.json'');
          globalOverrides =
            (case host_globalPaths ide of
               None \<Rightarrow> None
             | Some gp \<Rightarrow>
                 if isWindows platformInfo then Win gp
                 else if isMac platformInfo then macOS gp
                 else None);
          globalSkillsFolder =
            (case globalOverrides of
               None \<Rightarrow> skillsFolder'
             | Some ov \<Rightarrow> or_else (o_skillsFolder ov) skillsFolder');
          globalMcpConfigFile =
            (case globalOverrides of
               None \<Rightarrow> mcpConfigFile'
             | Some ov \<Rightarrow> or_else (o_mcpConfigFile ov) mcpConfigFile');
          useAppSupport = (host_globalPaths ide \<noteq> None
                           \<and> (isWindows platformInfo \<or> isMac platformInfo));
          globalBase = (if useAppSupport then appSupport else home)
      in \<lparr>hp_name = displayName ide,
          mcpConfig = path_join env [globalBase, globalMcpConfigFile],
          localMcpConfig = path_join env [projectRoot, mcpConfigFile'],
          hp_mcpServerKey = mcpServerKey ide,
          skillsDir = path_join env [globalBase, globalSkillsFolder],
          localSkillsDir = path_join env [projectRoot, skillsFolder']\<rparr>)"

text \<open>\<^verbatim>\<open>paths[ide.id] = {...}\<close> for each host in turn, an assignment on the object \<open>paths\<close>
  that starts empty; the result maps the ids to the paths.\<close>

definition getIdePaths ::
  "process_env \<Rightarrow> string \<Rightarrow> platformInfo \<Rightarrow> host list \<Rightarrow> (string \<times> hostPaths) list" where
  "getIdePaths env projectRoot platformInfo ideConfigs =
     foldl (\<lambda>paths ide. obj_set paths (host_id ide) (idePaths env projectRoot platformInfo ide))
       [] ideConfigs"

text \<open>The body of the loop of \<^verbatim>\<open>getHostApplicationPaths\<close> for one host.\<close>

definition hostApplicationPaths :: "process_env \<Rightarrow> string \<Rightarrow> host \<Rightarrow> hostPaths" where
  "hostApplicationPaths env projectRoot h =
     (let home = homedir env;
          skillsFolder' = or_else (skillsFolder h) (''.'' @ host_id h @ ''/skills'');
          mcpConfigFile' = or_else (mcpConfigFile h) (''.'' @ host_id h @ ''/mcp.json'')
      in \<lparr>hp_name = displayName h,
          mcpConfig = path_join env [home, mcpConfigFile'],
          localMcpConfig = path_join env [projectRoot, mcpConfigFile'],
          hp_mcpServerKey = mcpServerKey h,
          skillsDir = path_join env [home, skillsFolder'],
          localSkillsDir = path_join env [projectRoot, skillsFolder']\<rparr>)"

definition getHostApplicationPaths ::
  "process_env \<Rightarrow> string \<Rightarrow> platformInfo \<Rightarrow> host list \<Rightarrow> (string \<times> hostPaths) list" where
  "getHostApplicationPaths env projectRoot platformInfo hostConfigs =
     foldl (\<lambda>paths h. obj_set paths (host_id h) (hostApplicationPaths env projectRoot h))
       [] hostConfigs"

definition getMcpRepoDir ::
  "process_env \<Rightarrow> string \<Rightarrow> string \<Rightarrow> platformInfo \<Rightarrow> string \<Rightarrow> string" where
  "getMcpRepoDir env scope projectRoot platformInfo mcpName =
     (if scope = ''local''
      then path_join env [projectRoot, ''.a11y-devkit'', ''mcp-repos'', mcpName]
      else path_join env [getAppSupportDir env platformInfo, ''a11y-devkit'', ''mcp-repos'', mcpName])"

text \<open>\<^verbatim>\<open>path.posix.join\<close> on segments that need no normalization (none empty, no \<^verbatim>\<open>.\<close> or
  \<^verbatim>\<open>..\<close> component, no doubled or trailing slash): the segments with a slash between them.\<close>

definition plain_join :: "string list \<Rightarrow> string" where
  "plain_join parts = join ''/'' parts"

text \<open>A process on macOS, and a host that declares where its files are there.\<close>

definition mac_env :: process_env where
  "mac_env = \<lparr>homedir = ''/Users/dev'', APPDATA = None, XDG_CONFIG_HOME = None,
              path_join = plain_join\<rparr>"

definition claude_host :: host where
  "claude_host =
     \<lparr>host_id = ''claude'', displayName = ''Claude Desktop'', skillsFolder = None,
      mcpConfigFile = None, mcpServerKey = ''mcpServers'',
      host_globalPaths =
        Some \<lparr>Win = Some \<lparr>o_skillsFolder = None,
                           o_mcpConfigFile = Some ''Claude/claude_desktop_config.json''\<rparr>,
              macOS = Some \<lparr>o_skillsFolder = Some ''Claude/skills'',
                             o_mcpConfigFile = Some ''Claude/claude_desktop_config.json''\<rparr>\<rparr>\<rparr>"

section \<open>Provisioning repositories\<close>

text \<open>
  The functions of this part act on the world outside the program: they test whether a
  path exists, start processes, ask the user, delete directories, and print. The world is
  a value of a type \<open>'w\<close> about which nothing is assumed, and what the operating system
  does with it is given by a record of functions. A function of the program takes the
  state before and returns its result (an error thrown is \<open>Inl\<close>) and the state after.
  The state also records, in order, the processes started and the lines printed.
\<close>

datatype js_error = Error string

text \<open>How a child process ended: the \<^verbatim>\<open>close\<close> event with its exit code (\<open>None\<close> is
  \<^verbatim>\<open>null\<close>, a process ended by a signal), or the \<^verbatim>\<open>error\<close> event with the message of
  its error.\<close>

datatype child_end = Close "int option" | ErrorEvent string

record child =
  c_stdout :: string
  c_stderr :: string
  c_end :: child_end

datatype answer = Cancelled | Overwrite bool

record 'w sys =
  access :: "'w \<Rightarrow> string \<Rightarrow> bool"
  spawn :: "string \<Rightarrow> string list \<Rightarrow> string option \<Rightarrow> 'w \<Rightarrow> child \<times> 'w"
  rm :: "string \<Rightarrow> 'w \<Rightarrow> js_error option \<times> 'w"
  prompt :: "'w \<Rightarrow> answer"
  sys_join :: "string list \<Rightarrow> string"

datatype printed = Warn string | ConsoleError string

record 'w state =
  world :: 'w
  started :: "(string \<times> string list) list"
  shown :: "printed list"

text \<open>\<^verbatim>\<open>pathExists\<close>: \<^verbatim>\<open>fs.access\<close> succeeds.\<close>

definition pathExists :: "'w sys \<Rightarrow> 'w state \<Rightarrow> string \<Rightarrow> bool" where
  "pathExists sy st target = access sy (world st) target"

text \<open>\<^verbatim>\<open>${code}\<close> for an exit code.\<close>

definition code_string :: "int option \<Rightarrow> string" where
  "code_string c = (case c of None \<Rightarrow> ''null'' | Some n \<Rightarrow> dec_of_int n)"

subsection \<open>installers/repo.js\<close>

text \<open>\<^verbatim>\<open>run(command, args, options)\<close> of this module starts the process with the output
  inherited; it resolves when the process closes with code 0 and rejects otherwise.\<close>

definition run_inherit ::
  "'w sys \<Rightarrow> string \<Rightarrow> string list \<Rightarrow> string option \<Rightarrow> 'w state \<Rightarrow> (js_error + unit) \<times> 'w state"
  where
  "run_inherit sy cmd as cwd st =
     (case spawn sy cmd as cwd (world st) of
        (ch, w') \<Rightarrow>
          (let st' = st\<lparr>world := w', started := started st @ [(cmd, as)]\<rparr>
           in case c_end ch of
                ErrorEvent msg \<Rightarrow> (Inl (Error msg), st')
              | Close code \<Rightarrow>
                  if code = Some 0 then (Inr (), st')
                  else (Inl (Error (cmd @ '' '' @ join '' '' as @ '' failed with code ''
                                    @ code_string code)), st')))"

record repo_result =
  action :: string
  dir :: string

definition ensureRepo ::
  "'w sys \<Rightarrow> string \<Rightarrow> string \<Rightarrow> 'w state \<Rightarrow> (js_error + repo_result) \<times> 'w state" where
  "ensureRepo sy url d st =
     (let hasDir = pathExists sy st d;
          gitDir = sys_join sy [d, ''.git'']
      in if hasDir
         then (let isGitRepo = pathExists sy st gitDir
               in if \<not> isGitRepo
                  then (Inl (Error (''Target exists but is not a git repo: '' @ d)), st)
                  else (case run_inherit sy ''git'' [''-C'', d, ''pull'', ''--ff-only''] None st of
                          (Inl e, st') \<Rightarrow> (Inl e, st')
                        | (Inr u, st') \<Rightarrow> (Inr \<lparr>action = ''updated'', dir = d\<rparr>, st')))
         else (case run_inherit sy ''git'' [''clone'', ''--depth'', ''1'', url, d] None st of
                 (Inl e, st') \<Rightarrow> (Inl e, st')
               | (Inr u, st') \<Rightarrow> (Inr \<lparr>action = ''cloned'', dir = d\<rparr>, st')))"

subsection \<open>The installer of a server from a git repository\<close>

text \<open>\<^verbatim>\<open>run\<close> of this module pipes the output and collects it; the message of the rejection
  ends with what the process wrote to standard error.\<close>

definition run_pipe ::
  "'w sys \<Rightarrow> string \<Rightarrow> string list \<Rightarrow> string option \<Rightarrow> 'w state
     \<Rightarrow> (js_error + string \<times> string) \<times> 'w state" where
  "run_pipe sy cmd as cwd st =
     (case spawn sy cmd as cwd (world st) of
        (ch, w') \<Rightarrow>
          (let st' = st\<lparr>world := w', started := started st @ [(cmd, as)]\<rparr>
           in case c_end ch of
                ErrorEvent msg \<Rightarrow> (Inl (Error msg), st')
              | Close code \<Rightarrow>
                  if code = Some 0 then (Inr (c_stdout ch, c_stderr ch), st')
                  else (Inl (Error (cmd @ '' '' @ join '' '' as @ '' failed with code ''
                                    @ code_string code @ '': '' @ c_stderr ch)), st')))"

text \<open>\<^verbatim>\<open>s.toLowerCase()\<close> on code units below 256, and \<^verbatim>\<open>s.includes(p)\<close>.\<close>

definition lower_char :: "char \<Rightarrow> char" where
  "lower_char c =
     (let n = of_char c :: nat
      in if (65 \<le> n \<and> n \<le> 90) \<or> (192 \<le> n \<and> n \<le> 222 \<and> n \<noteq> 215) then char_of (n + 32) else c)"

definition toLowerCase :: "string \<Rightarrow> string" where
  "toLowerCase s = map lower_char s"

fun str_includes :: "string \<Rightarrow> string \<Rightarrow> bool" where
  "str_includes [] p = (p = [])"
| "str_includes (c # cs) p = (startsWith (c # cs) p \<or> str_includes cs p)"

record clone_result =
  cl_stdout :: string
  cl_stderr :: string

definition cloneGitRepo ::
  "'w sys \<Rightarrow> string \<Rightarrow> string \<Rightarrow> 'w state \<Rightarrow> (js_error + clone_result) \<times> 'w state" where
  "cloneGitRepo sy repoUrl targetDir st =
     (case run_pipe sy ''git'' [''clone'', repoUrl, targetDir] None st of
        (Inr (out, err), st') \<Rightarrow> (Inr \<lparr>cl_stdout = out, cl_stderr = err\<rparr>, st')
      | (Inl (Error message), st') \<Rightarrow>
          (let errorMessage = toLowerCase message
           in if str_includes errorMessage ''authentication''
                 \<or> str_includes errorMessage ''fatal: could not read''
              then (Inl (Error (''Authentication required for '' @ repoUrl
                       @ ''. Please ensure the repository is public or configure Git credentials.'')),
                    st')
              else if str_includes errorMessage ''repository not found''
                      \<or> str_includes errorMessage ''not found''
              then (Inl (Error (''Repository not found: '' @ repoUrl
                       @ ''. Please verify the URL is correct.'')), st')
              else if str_includes errorMessage ''git: command not found''
                      \<or> str_includes errorMessage [CHR 0x27, CHR ''g'', CHR ''i'', CHR ''t'', CHR 0x27,
                           CHR '' '', CHR ''i'', CHR ''s'', CHR '' '', CHR ''n'', CHR ''o'', CHR ''t'',
                           CHR '' '', CHR ''r'', CHR ''e'', CHR ''c'', CHR ''o'', CHR ''g'', CHR ''n'',
                           CHR ''i'', CHR ''z'', CHR ''e'', CHR ''d'']
              then (Inl (Error ''Git is not installed. Please install Git and try again.''), st')
              else (Inl (Error (''Failed to clone repository: '' @ message)), st')))"

record build_result =
  success :: bool
  b_stdout :: string
  b_stderr :: string

text \<open>\<^verbatim>\<open>buildGitRepo\<close> catches the rejection: it never throws. The error that \<^verbatim>\<open>run\<close>
  rejects with has no \<^verbatim>\<open>stdout\<close> and no \<^verbatim>\<open>stderr\<close> property, so the result holds the
  empty string and the message.\<close>

definition buildGitRepo ::
  "'w sys \<Rightarrow> string \<Rightarrow> string \<Rightarrow> 'w state \<Rightarrow> build_result \<times> 'w state" where
  "buildGitRepo sy repoDir buildCommand st =
     (case run_pipe sy buildCommand [] (Some repoDir) st of
        (Inr (out, err), st') \<Rightarrow> (\<lparr>success = True, b_stdout = out, b_stderr = err\<rparr>, st')
      | (Inl (Error message), st') \<Rightarrow>
          (\<lparr>success = False, b_stdout = [], b_stderr = message\<rparr>, st'))"

definition cleanupGitRepo ::
  "'w sys \<Rightarrow> string \<Rightarrow> 'w state \<Rightarrow> (js_error + unit) \<times> 'w state" where
  "cleanupGitRepo sy repoPath st =
     (if pathExists sy st repoPath
      then (case rm sy repoPath (world st) of
              (Some e, w') \<Rightarrow> (Inl e, st\<lparr>world := w'\<rparr>)
            | (None, w') \<Rightarrow> (Inr (), st\<lparr>world := w'\<rparr>))
      else (Inr (), st))"

text \<open>Modelled from the spec: \<^verbatim>\<open>warn\<close> of \<^verbatim>\<open>ui.js\<close> is not among the sources; it emits a
  warning, which the state records. \<^verbatim>\<open>console.error\<close> is recorded the same way.\<close>

definition warn :: "string \<Rightarrow> 'w state \<Rightarrow> 'w state" where
  "warn msg st = st\<lparr>shown := shown st @ [Warn msg]\<rparr>"

definition console_error :: "string \<Rightarrow> 'w state \<Rightarrow> 'w state" where
  "console_error msg st = st\<lparr>shown := shown st @ [ConsoleError msg]\<rparr>"

record mcpConfig =
  mc_name :: string
  mc_repoUrl :: string
  mc_type :: "jv option"
  mc_command :: "jv option"
  mc_args :: "jv option"
  mc_buildCommand :: string

record serverDescriptor =
  sd_name :: string
  sd_type :: "jv option"
  sd_command :: "jv option"
  sd_args :: "jv option"
  sd_repoPath :: string

text \<open>The first part of \<^verbatim>\<open>installGitMcp\<close>: an installation that exists is overwritten only
  if the user says so.\<close>

definition confirm_overwrite ::
  "'w sys \<Rightarrow> string \<Rightarrow> string \<Rightarrow> 'w state \<Rightarrow> (js_error + unit) \<times> 'w state" where
  "confirm_overwrite sy nm repoPath st =
     (if pathExists sy st repoPath
      then (let st1 = warn (''MCP server '' @ [CHR 0x27] @ nm @ [CHR 0x27] @ '' already exists at ''
                            @ repoPath) st
            in case prompt sy (world st1) of
                 Cancelled \<Rightarrow> (Inl (Error ''Installation cancelled by user''), st1)
               | Overwrite ow \<Rightarrow>
                   if \<not> ow
                   then (Inl (Error ''Installation cancelled - existing MCP not overwritten''), st1)
                   else cleanupGitRepo sy repoPath st1)
      else (Inr (), st))"

definition installGitMcp ::
  "'w sys \<Rightarrow> mcpConfig \<Rightarrow> string \<Rightarrow> string \<Rightarrow> platformInfo
     \<Rightarrow> (string \<Rightarrow> string \<Rightarrow> platformInfo \<Rightarrow> string \<Rightarrow> string)
     \<Rightarrow> 'w state \<Rightarrow> (js_error + serverDescriptor) \<times> 'w state" where
  "installGitMcp sy mcp repoScope projectRoot platformInfo getRepoDir st =
     (let repoPath = getRepoDir repoScope projectRoot platformInfo (mc_name mcp)
      in case confirm_overwrite sy (mc_name mcp) repoPath st of
           (Inl e, st1) \<Rightarrow> (Inl e, st1)
         | (Inr u, st1) \<Rightarrow>
             (case cloneGitRepo sy (mc_repoUrl mcp) repoPath st1 of
                (Inl e, st2) \<Rightarrow> (Inl e, st2)
              | (Inr cl, st2) \<Rightarrow>
                  (case buildGitRepo sy repoPath (mc_buildCommand mcp) st2 of
                     (buildResult, st3) \<Rightarrow>
                       (let st4 =
                              (if \<not> success buildResult
                               then (let s1 = warn ''Build command failed but continuing with installation'' st3
                                     in if b_stderr buildResult \<noteq> []
                                        then console_error (b_stderr buildResult)
                                               (console_error ''Build error output:'' s1)
                                        else s1)
                               else st3)
                        in (Inr \<lparr>sd_name = mc_name mcp, sd_type = mc_type mcp,
                                 sd_command = mc_command mcp, sd_args = mc_args mcp,
                                 sd_repoPath = repoPath\<rparr>, st4)))))"

text \<open>A small world for examples: the list of the paths that exist. A \<^verbatim>\<open>git clone\<close> creates
  its target with a \<^verbatim>\<open>.git\<close> inside and succeeds; any other process writes to standard
  error and ends with code 1; \<^verbatim>\<open>rm\<close> removes the path and what is below it; the user
  agrees to overwrite.\<close>

definition list_sys :: "string list sys" where
  "list_sys =
     \<lparr>access = (\<lambda>w p. p \<in> set w),
      spawn = (\<lambda>cmd as cwd w.
                 if cmd = ''git'' \<and> take 1 as = [''clone'']
                 then (\<lparr>c_stdout = [], c_stderr = ''Cloning...'', c_end = Close (Some 0)\<rparr>,
                       w @ [last as, last as @ ''/.git''])
                 else (\<lparr>c_stdout = [], c_stderr = ''npm ERR!'', c_end = Close (Some 1)\<rparr>, w)),
      rm = (\<lambda>p w. (None, filter (\<lambda>q. \<not> startsWith q p) w)),
      prompt = (\<lambda>w. Overwrite True),
      sys_join = plain_join\<rparr>"

text \<open>A server to install, with a build command.\<close>

definition wcag_mcp :: mcpConfig where
  "wcag_mcp =
     \<lparr>mc_name = ''wcag'', mc_repoUrl = ''https://example.org/wcag-mcp.git'',
      mc_type = Some (JStr ''stdio''), mc_command = Some (JStr ''node''),
      mc_args = Some (JArr [JStr ''index.js'']), mc_buildCommand = ''npm install && npm run build''\<rparr>"

section \<open>Properties of mergeServers and removeServers\<close>

text \<open>The example of the specification: a server merged into the empty document, and
  removed again.\<close>

lemma merge_then_remove_example:
  "mergeServers []
     [\<lparr>name = ''wcag'', command = JStr ''node'', args = Some (JArr [JStr ''index.js'']),
       type = None\<rparr>] ''servers''
   = [(''servers'', JObj [(''wcag'', JObj [(''command'', JStr ''node''),
                                           (''args'', JArr [JStr ''index.js''])])])]
   \<and> removeServers
       [(''servers'', JObj [(''wcag'', JObj [(''command'', JStr ''node''),
                                             (''args'', JArr [JStr ''index.js''])])])]
       [''wcag''] ''servers''
     = \<lparr>updated = [], removed = 1\<rparr>"
  by code_simp

lemma obj_get_define:
  "obj_get (define_prop ob k v) k' = (if k' = k then Some v else obj_get ob k')"
  by (simp add: obj_get_def define_prop_def update_conv')

lemma obj_set_plain: "k \<noteq> ''__proto__'' \<Longrightarrow> obj_set ob k v = define_prop ob k v"
  by (simp add: obj_set_def)

lemma obj_set_own: "k \<in> fst ` set ob \<Longrightarrow> obj_set ob k v = define_prop ob k v"
  by (simp add: obj_set_def)

lemma obj_set_keys:
  "fst ` set (obj_set ob k v) =
     (if k = ''__proto__'' \<and> k \<notin> fst ` set ob then fst ` set ob else insert k (fst ` set ob))"
  by (auto simp: obj_set_def define_prop_def dom_update)

lemma obj_get_delete: "obj_get (obj_delete ob k) k' = (if k' = k then None else obj_get ob k')"
  by (simp add: obj_get_def obj_delete_def delete_conv')

lemma obj_get_own: "obj_get ob k = Some v \<Longrightarrow> k \<in> fst ` set ob"
  by (auto simp: obj_get_def dest: map_of_SomeD intro: rev_image_eqI)

lemma assign_in_section_other:
  "k' \<noteq> k \<Longrightarrow> obj_get (assign_in_section merged k n v) k' = obj_get merged k'"
  by (simp add: assign_in_section_def obj_get_define split: option.splits jv.splits)

lemma merge_loop_other:
  "k' \<noteq> k \<Longrightarrow> obj_get (merge_loop merged k incoming) k' = obj_get merged k'"
  by (induction incoming arbitrary: merged) (simp_all add: assign_in_section_other)

text \<open>
  C4. For every document, every incoming list and every section key \<open>k\<close>, the document
  that mergeServers returns maps every top-level key other than \<open>k\<close> to the value the
  existing document maps it to (and has that key exactly when the existing document has it).
\<close>

theorem mergeServers_preserves_other_keys:
  "k' \<noteq> k \<Longrightarrow> obj_get (mergeServers existing incoming k) k' = obj_get existing k'"
  by (simp add: mergeServers_def Let_def merge_loop_other obj_get_define)

theorem mergeServers_preserves_other_keys_witness:
  "''theme'' \<noteq> ''servers'' \<and>
   obj_get (mergeServers [(''theme'', JStr ''dark''), (''servers'', JObj [(''aria'', JObj [])])]
              [\<lparr>name = ''wcag'', command = JStr ''node'', args = Some (JArr [JStr ''index.js'']),
                type = None\<rparr>] ''servers'') ''theme''
   = Some (JStr ''dark'')"
  using mergeServers_preserves_other_keys [of "''theme''" "''servers''"
      "[(''theme'', JStr ''dark''), (''servers'', JObj [(''aria'', JObj [])])]"
      "[\<lparr>name = ''wcag'', command = JStr ''node'', args = Some (JArr [JStr ''index.js'']),
                type = None\<rparr>]"]
  by (simp add: obj_get_def)

lemma remove_loop_fst:
  "fst (remove_loop es n names) = filter (\<lambda>p. fst p \<notin> set names) es"
proof (induction names arbitrary: es n)
  case Nil
  then show ?case by simp
next
  case (Cons nm names)
  show ?case
  proof (cases "hasOwnProperty es nm")
    case True
    have "filter (\<lambda>p. fst p \<notin> set names) (obj_delete es nm) =
          filter (\<lambda>p. fst p \<notin> set (nm # names)) es"
      by (simp add: obj_delete_def AList.delete_eq case_prod_beta) (rule filter_cong, auto)
    with True show ?thesis by (simp add: Cons.IH)
  next
    case False
    then have "filter (\<lambda>p. fst p \<notin> set names) es = filter (\<lambda>p. fst p \<notin> set (nm # names)) es"
      by (intro filter_cong) (auto simp: hasOwnProperty_def)
    with False show ?thesis by (simp add: Cons.IH)
  qed
qed

lemma remove_loop_snd_ge: "n \<le> snd (remove_loop es n names)"
proof (induction names arbitrary: es n)
  case Nil
  then show ?case by simp
next
  case (Cons nm names)
  have "Suc n \<le> snd (remove_loop (obj_delete es nm) (Suc n) names)" by (rule Cons.IH)
  moreover have "n \<le> snd (remove_loop es n names)" by (rule Cons.IH)
  ultimately show ?case by auto
qed

lemma remove_loop_none:
  "\<forall>nm \<in> set names. \<not> hasOwnProperty es nm \<Longrightarrow> remove_loop es n names = (es, n)"
  by (induction names arbitrary: es n) simp_all

lemma remove_loop_some:
  "\<exists>nm \<in> set names. hasOwnProperty es nm \<Longrightarrow> n < snd (remove_loop es n names)"
proof (induction names arbitrary: es n)
  case Nil
  then show ?case by simp
next
  case (Cons nm names)
  show ?case
  proof (cases "hasOwnProperty es nm")
    case True
    have "Suc n \<le> snd (remove_loop (obj_delete es nm) (Suc n) names)"
      by (rule remove_loop_snd_ge)
    with True show ?thesis by simp
  next
    case False
    with Cons.prems have "\<exists>nm \<in> set names. hasOwnProperty es nm" by auto
    from Cons.IH [OF this] False show ?thesis by simp
  qed
qed

lemma section_entries_absent: "obj_get d k = None \<Longrightarrow> section_entries d k = []"
  by (simp add: section_entries_def existingServers_def)

lemma removeServers_none_matches:
  assumes "\<forall>nm \<in> set names. \<not> hasOwnProperty (section_entries d k) nm"
  shows "removeServers d names k = \<lparr>updated = d, removed = 0\<rparr>"
proof (cases "existingServers d k")
  case None
  then show ?thesis by (simp add: removeServers_def)
next
  case (Some v)
  then have "remove_loop (own_entries v) 0 names = (own_entries v, 0)"
    using assms by (intro remove_loop_none) (simp add: section_entries_def)
  with Some show ?thesis by (simp add: removeServers_def)
qed

lemma removeServers_absent:
  "obj_get d k = None \<Longrightarrow> removeServers d names k = \<lparr>updated = d, removed = 0\<rparr>"
  by (rule removeServers_none_matches) (simp add: section_entries_absent hasOwnProperty_def)

text \<open>
  C7. If the section is absent from the document, or none of the given names is an entry
  of it, removeServers returns the document it was given and a removed count of 0.
\<close>

theorem removeServers_noop:
  "obj_get existing k = None \<or> (\<forall>nm \<in> set removeNames. \<not> hasOwnProperty (section_entries existing k) nm)
   \<Longrightarrow> removeServers existing removeNames k = \<lparr>updated = existing, removed = 0\<rparr>"
  using removeServers_absent removeServers_none_matches by blast

theorem removeServers_noop_witness:
  "\<not> hasOwnProperty
       (section_entries [(''servers'', JObj [(''aria'', JObj [])])] ''servers'') ''wcag'' \<and>
   removeServers [(''servers'', JObj [(''aria'', JObj [])])] [''wcag''] ''servers''
   = \<lparr>updated = [(''servers'', JObj [(''aria'', JObj [])])], removed = 0\<rparr>"
  using removeServers_noop [of "[(''servers'', JObj [(''aria'', JObj [])])]" "''servers''" "[''wcag'']"]
  by (simp add: section_entries_def existingServers_def obj_get_def hasOwnProperty_def)

lemma merge_loop_section:
  "merge_loop (define_prop existing k (JObj sec)) k incoming =
   define_prop existing k
     (JObj (fold (\<lambda>s sec. obj_set sec (name s) (serverConfig s)) incoming sec))"
proof (induction incoming arbitrary: sec)
  case Nil
  then show ?case by simp
next
  case (Cons s incoming)
  have "assign_in_section (define_prop existing k (JObj sec)) k (name s) (serverConfig s) =
        define_prop existing k (JObj (obj_set sec (name s) (serverConfig s)))"
    by (simp add: assign_in_section_def obj_get_define) (simp add: define_prop_def)
  then show ?case by (simp add: Cons.IH)
qed

lemma mergeServers_eq:
  "mergeServers existing incoming k =
   define_prop existing k
     (JObj (fold (\<lambda>s sec. obj_set sec (name s) (serverConfig s)) incoming
              (section_entries existing k)))"
  by (simp add: mergeServers_def section_entries_def merge_loop_section split: option.splits)

text \<open>The keys of the merged section: those it had, and the names of the servers other than
  \<^verbatim>\<open>__proto__\<close>.\<close>

lemma fold_assign_keys:
  "fst ` set (fold (\<lambda>s sec. obj_set sec (name s) (serverConfig s)) incoming sec) =
   fst ` set sec \<union> {n \<in> name ` set incoming. n \<noteq> ''__proto__''}"
proof (induction incoming arbitrary: sec)
  case Nil
  then show ?case by simp
next
  case (Cons s incoming)
  show ?case
    unfolding fold_simps Cons.IH obj_set_keys by force
qed

lemma filter_update_out:
  "n \<in> N \<Longrightarrow> filter (\<lambda>p. fst p \<notin> N) (AList.update n v al) = filter (\<lambda>p. fst p \<notin> N) al"
  by (induction al) auto

lemma filter_obj_set_out:
  "n \<in> N \<Longrightarrow> filter (\<lambda>p. fst p \<notin> N) (obj_set al n v) = filter (\<lambda>p. fst p \<notin> N) al"
  by (simp add: obj_set_def define_prop_def filter_update_out)

lemma filter_fold_assign:
  "name ` set incoming \<subseteq> N \<Longrightarrow>
   filter (\<lambda>p. fst p \<notin> N) (fold (\<lambda>s sec. obj_set sec (name s) (serverConfig s)) incoming sec) =
   filter (\<lambda>p. fst p \<notin> N) sec"
  by (induction incoming arbitrary: sec) (simp_all add: filter_obj_set_out)

lemma section_invariant_cases:
  assumes "section_invariant d k"
  obtains (absent) "obj_get d k = None" "section_entries d k = []"
        | (present) sec where "obj_get d k = Some (JObj sec)" "sec \<noteq> []" "section_entries d k = sec"
  using assms
  by (auto simp: section_invariant_def section_entries_def existingServers_def
           split: option.splits jv.splits)

lemma removeServers_eq:
  assumes "obj_get d k = Some (JObj sec)"
  shows "removeServers d names k =
     (let us = filter (\<lambda>p. fst p \<notin> set names) sec; n = snd (remove_loop sec 0 names)
      in if n = 0 then \<lparr>updated = d, removed = 0\<rparr>
         else if us = [] then \<lparr>updated = obj_delete d k, removed = n\<rparr>
         else \<lparr>updated = define_prop d k (JObj us), removed = n\<rparr>)"
proof -
  obtain us n where r: "remove_loop sec 0 names = (us, n)" by (cases "remove_loop sec 0 names")
  have "us = filter (\<lambda>p. fst p \<notin> set names) sec"
    using remove_loop_fst [of sec 0 names] r by simp
  moreover have "obj_set d k (JObj us) = define_prop d k (JObj us)"
    by (rule obj_set_own) (rule obj_get_own [OF assms])
  ultimately show ?thesis
    using r assms by (simp add: removeServers_def existingServers_def Let_def)
qed

text \<open>
  C3, as amended. On a document that satisfies the section invariant: mergeServers
  returns a document that satisfies it whenever the incoming list holds a server whose
  name is not \<^verbatim>\<open>__proto__\<close>, or the section is already present; removeServers always
  returns one that satisfies it; and when every entry of the section is among the
  removed names, the section key is absent from the updated document.
\<close>

theorem section_invariant_preserved:
  assumes inv: "section_invariant d k"
  shows "((\<exists>s \<in> set incoming. name s \<noteq> ''__proto__'') \<or> obj_get d k \<noteq> None
            \<longrightarrow> section_invariant (mergeServers d incoming k) k)
       \<and> section_invariant (updated (removeServers d names k)) k
       \<and> (fst ` set (section_entries d k) \<subseteq> set names \<longrightarrow>
            obj_get (updated (removeServers d names k)) k = None)"
proof (intro conjI impI)
  assume ne: "(\<exists>s \<in> set incoming. name s \<noteq> ''__proto__'') \<or> obj_get d k \<noteq> None"
  let ?sec = "fold (\<lambda>s sec. obj_set sec (name s) (serverConfig s)) incoming (section_entries d k)"
  have "fst ` set ?sec \<noteq> {}"
    using inv ne by (cases rule: section_invariant_cases) (auto simp: fold_assign_keys)
  then have "?sec \<noteq> []" by auto
  then show "section_invariant (mergeServers d incoming k) k"
    by (simp add: mergeServers_eq section_invariant_def obj_get_define)
next
  show "section_invariant (updated (removeServers d names k)) k"
    using inv
  proof (cases rule: section_invariant_cases)
    case absent
    then show ?thesis using inv by (simp add: removeServers_absent)
  next
    case (present sec)
    then show ?thesis using inv
      by (simp add: removeServers_eq Let_def section_invariant_def obj_get_define obj_get_delete)
  qed
next
  assume sub: "fst ` set (section_entries d k) \<subseteq> set names"
  show "obj_get (updated (removeServers d names k)) k = None"
    using inv
  proof (cases rule: section_invariant_cases)
    case absent
    then show ?thesis by (simp add: removeServers_absent)
  next
    case (present sec)
    from present sub have all: "fst ` set sec \<subseteq> set names" by simp
    then have "filter (\<lambda>p. fst p \<notin> set names) sec = []"
      by (auto simp: filter_empty_conv)
    moreover have "\<exists>nm \<in> set names. hasOwnProperty sec nm"
      using all present(2) by (cases sec) (auto simp: hasOwnProperty_def)
    then have "0 < snd (remove_loop sec 0 names)" by (rule remove_loop_some)
    ultimately show ?thesis using present
      by (simp add: removeServers_eq Let_def obj_get_delete)
  qed
qed

theorem section_invariant_preserved_witness:
  "section_invariant [(''servers'', JObj [(''aria'', JObj [])])] ''servers'' \<and>
   name \<lparr>name = ''wcag'', command = JStr ''node'', args = None, type = None\<rparr> \<noteq> ''__proto__'' \<and>
   section_invariant
     (mergeServers [(''servers'', JObj [(''aria'', JObj [])])]
        [\<lparr>name = ''wcag'', command = JStr ''node'', args = None, type = None\<rparr>] ''servers'')
     ''servers'' \<and>
   section_invariant
     (updated (removeServers [(''servers'', JObj [(''aria'', JObj [])])] [''aria''] ''servers''))
     ''servers'' \<and>
   obj_get (updated (removeServers [(''servers'', JObj [(''aria'', JObj [])])] [''aria''] ''servers''))
     ''servers'' = None"
  using section_invariant_preserved [of "[(''servers'', JObj [(''aria'', JObj [])])]" "''servers''"
      "[\<lparr>name = ''wcag'', command = JStr ''node'', args = None, type = None\<rparr>]" "[''aria'']"]
  by (simp add: section_invariant_def section_entries_def existingServers_def obj_get_def)

text \<open>A server named \<^verbatim>\<open>__proto__\<close> adds no entry: the assignment runs the setter of
  \<^verbatim>\<open>Object.prototype\<close> on the new section. Merged into the empty document it leaves an empty
  section, as the empty list does.\<close>

lemma merge_proto_name:
  "mergeServers []
     [\<lparr>name = ''__proto__'', command = JStr ''node'', args = None, type = None\<rparr>] ''servers''
   = [(''servers'', JObj [])]"
  by code_simp

lemma fold_assign_proto:
  assumes "\<forall>s \<in> set incoming. name s = ''__proto__''" "''__proto__'' \<notin> fst ` set sec"
  shows "fold (\<lambda>s sec. obj_set sec (name s) (serverConfig s)) incoming sec = sec"
  using assms by (induction incoming) (simp_all add: obj_set_def)

text \<open>
  C1, as amended. For a document that satisfies the section invariant under \<open>k\<close>, and
  servers whose names are not entries of that section, with a server whose name is not
  \<^verbatim>\<open>__proto__\<close> in the list or the section present: removing the names of the servers
  from the merged document gives back the document itself (the same entries in the same
  order).
\<close>

theorem remove_after_merge:
  assumes inv: "section_invariant d k"
      and fresh: "\<forall>s \<in> set incoming. \<not> hasOwnProperty (section_entries d k) (name s)"
      and ne: "(\<exists>s \<in> set incoming. name s \<noteq> ''__proto__'') \<or> obj_get d k \<noteq> None"
  shows "updated (removeServers (mergeServers d incoming k) (map name incoming) k) = d"
proof -
  let ?names = "map name incoming"
  let ?old = "section_entries d k"
  let ?sec = "fold (\<lambda>s sec. obj_set sec (name s) (serverConfig s)) incoming ?old"
  have get: "obj_get (mergeServers d incoming k) k = Some (JObj ?sec)"
    by (simp add: mergeServers_eq obj_get_define)
  have "filter (\<lambda>p. fst p \<notin> set ?names) ?sec = filter (\<lambda>p. fst p \<notin> set ?names) ?old"
    by (rule filter_fold_assign) simp
  also have "\<dots> = ?old"
    using fresh by (force simp: filter_id_conv hasOwnProperty_def)
  finally have us: "filter (\<lambda>p. fst p \<notin> set ?names) ?sec = ?old" .
  show ?thesis
  proof (cases "\<exists>s \<in> set incoming. name s \<noteq> ''__proto__''")
    case False
    with ne have "obj_get d k \<noteq> None" by simp
    with inv obtain sec where sec: "obj_get d k = Some (JObj sec)" "section_entries d k = sec"
      by (cases rule: section_invariant_cases) auto
    have "''__proto__'' \<notin> fst ` set sec \<or> incoming = []"
      using fresh False sec(2) by (cases incoming) (auto simp: hasOwnProperty_def)
    then have "?sec = sec"
      using False sec(2) by (auto intro: fold_assign_proto)
    then have merged: "mergeServers d incoming k = d"
      using sec(1) by (simp add: mergeServers_eq define_prop_def obj_get_def update_triv)
    have "\<forall>nm \<in> set ?names. \<not> hasOwnProperty (section_entries d k) nm"
      using fresh by simp
    then show ?thesis
      unfolding merged by (simp add: removeServers_none_matches)
  next
    case True
    then obtain s where "s \<in> set incoming" "name s \<noteq> ''__proto__''" by blast
    then have "name s \<in> set ?names \<and> hasOwnProperty ?sec (name s)"
      unfolding hasOwnProperty_def fold_assign_keys by auto
    then have "\<exists>nm \<in> set ?names. hasOwnProperty ?sec nm" by blast
    then have pos: "0 < snd (remove_loop ?sec 0 ?names)" by (rule remove_loop_some)
    from inv show ?thesis
    proof (cases rule: section_invariant_cases)
      case absent
      then have "k \<notin> fst ` set d" by (simp add: obj_get_def map_of_eq_None_iff)
      then have "obj_delete (define_prop d k (JObj ?sec)) k = d"
        by (simp add: obj_delete_def define_prop_def delete_update_same)
      with pos us absent show ?thesis
        by (simp add: removeServers_eq [OF get] Let_def) (simp add: mergeServers_eq)
    next
      case (present sec)
      then have "define_prop (define_prop d k (JObj ?sec)) k (JObj sec) = d"
        by (simp add: define_prop_def obj_get_def update_triv)
      with pos us present show ?thesis
        by (simp add: removeServers_eq [OF get] Let_def) (simp add: mergeServers_eq)
    qed
  qed
qed

theorem remove_after_merge_witness:
  "section_invariant [(''theme'', JStr ''dark'')] ''servers'' \<and>
   name \<lparr>name = ''wcag'', command = JStr ''node'', args = Some (JArr [JStr ''index.js'']),
          type = Some (JStr ''stdio'')\<rparr> \<noteq> ''__proto__'' \<and>
   updated (removeServers
     (mergeServers [(''theme'', JStr ''dark'')]
        [\<lparr>name = ''wcag'', command = JStr ''node'', args = Some (JArr [JStr ''index.js'']),
          type = Some (JStr ''stdio'')\<rparr>] ''servers'')
     (map name [\<lparr>name = ''wcag'', command = JStr ''node'', args = Some (JArr [JStr ''index.js'']),
          type = Some (JStr ''stdio'')\<rparr>]) ''servers'')
   = [(''theme'', JStr ''dark'')]"
  using remove_after_merge [of "[(''theme'', JStr ''dark'')]" "''servers''"
      "[\<lparr>name = ''wcag'', command = JStr ''node'', args = Some (JArr [JStr ''index.js'']),
          type = Some (JStr ''stdio'')\<rparr>]"]
  by (simp add: section_invariant_def section_entries_def existingServers_def obj_get_def
        hasOwnProperty_def)

text \<open>
  C1 as stated fails for the empty list of servers on a document without the section:
  mergeServers adds an empty section and removeServers, removing nothing, leaves it there.
\<close>

theorem remove_after_merge_counterexample:
  "updated (removeServers (mergeServers [] [] ''servers'') (map name []) ''servers'') \<noteq> []"
  by (simp add: mergeServers_def removeServers_def existingServers_def obj_get_def
        define_prop_def)

text \<open>It fails in the same way for a list that holds only a server named \<^verbatim>\<open>__proto__\<close>, and
  on a document whose section is an empty mapping, which the invariant excludes: there
  the merged server is removed and the section key with it.\<close>

lemma remove_after_merge_proto_name:
  "updated (removeServers
     (mergeServers []
        [\<lparr>name = ''__proto__'', command = JStr ''node'', args = None, type = None\<rparr>] ''servers'')
     (map name [\<lparr>name = ''__proto__'', command = JStr ''node'', args = None, type = None\<rparr>])
     ''servers'')
   = [(''servers'', JObj [])]"
  by code_simp

lemma remove_after_merge_empty_section:
  "updated (removeServers
     (mergeServers [(''servers'', JObj [])]
        [\<lparr>name = ''wcag'', command = JStr ''node'', args = None, type = None\<rparr>] ''servers'')
     (map name [\<lparr>name = ''wcag'', command = JStr ''node'', args = None, type = None\<rparr>])
     ''servers'')
   = []"
  by code_simp

text \<open>
  C3 as stated fails for the empty incoming list: the empty document satisfies the
  invariant, and mergeServers returns a document with an empty section.
\<close>

theorem section_invariant_counterexample:
  "section_invariant [] ''servers'' \<and> \<not> section_invariant (mergeServers [] [] ''servers'') ''servers''"
  by (simp add: mergeServers_def section_invariant_def existingServers_def obj_get_def
        define_prop_def)

section \<open>Properties of the minimal TOML format\<close>

subsection \<open>Strings and lines\<close>

lemma word_not_space: "is_word c \<Longrightarrow> \<not> is_space c"
  by (auto simp: is_word_def is_space_def Let_def)

lemma trim_id: "s \<noteq> [] \<Longrightarrow> \<not> is_space (hd s) \<Longrightarrow> \<not> is_space (last s) \<Longrightarrow> trim s = s"
proof -
  assume a: "s \<noteq> []" "\<not> is_space (hd s)" "\<not> is_space (last s)"
  then have 1: "dropWhile is_space s = s" by (cases s) auto
  from a have "rev s \<noteq> []" "\<not> is_space (hd (rev s))" by (simp_all add: hd_rev)
  then have 2: "dropWhile is_space (rev s) = rev s" by (cases "rev s") auto
  show ?thesis by (simp add: trim_def 1 2)
qed

lemma trim_Nil: "trim [] = []"
  by (simp add: trim_def)

lemma trim_space_Cons: "is_space c \<Longrightarrow> trim (c # s) = trim s"
  by (simp add: trim_def)

lemma split_on_single: "c \<notin> set a \<Longrightarrow> split_on c a = [a]"
  by (induction a) auto

lemma split_on_append: "c \<notin> set a \<Longrightarrow> split_on c (a @ c # b) = a # split_on c b"
  by (induction a) auto

lemma split_on_nonempty: "split_on c s \<noteq> []"
  by (induction s) (auto split: list.splits)

lemma split_on_Cons_other:
  "x \<noteq> c \<Longrightarrow> split_on c (x # xs) = (x # hd (split_on c xs)) # tl (split_on c xs)"
  using split_on_nonempty [of c xs] by (cases "split_on c xs") auto

lemma split_join:
  "ls \<noteq> [] \<Longrightarrow> \<forall>l \<in> set ls. c \<notin> set l \<Longrightarrow> split_on c (join [c] ls) = ls"
proof (induction ls rule: induct_list012)
  case 1
  then show ?case by simp
next
  case (2 x)
  then show ?case by (simp add: split_on_single)
next
  case (3 x y ys)
  then show ?case by (simp add: split_on_append)
qed

lemma blank_line: "parse_line st [] = Inr st"
  by (simp add: parse_line_def trim_Nil)

lemma parse_lines_append:
  "parse_lines st (xs @ ys) =
     (case parse_lines st xs of Inl stop \<Rightarrow> Inl stop | Inr st' \<Rightarrow> parse_lines st' ys)"
  by (induction xs arbitrary: st) (simp_all split: sum.splits)

lemma tableMatch_header:
  "CHR '']'' \<notin> set n \<Longrightarrow> n \<noteq> [] \<Longrightarrow> tableMatch (''['' @ n @ '']'') = Some n"
  by (simp add: tableMatch_def butlast_append)

lemma parse_line_header:
  assumes "trim l = h" "h \<noteq> []" "\<not> startsWith h ''#''" "tableMatch h = Some inner"
      and "split_on CHR ''.'' inner = [s, t]"
      and "s \<notin> set prototype_names" "t \<notin> set prototype_names"
  shows "parse_line st l =
         Inr \<lparr>result = open_table (result st) s t, currentSection = Some s,
              currentTable = Some t\<rparr>"
  using assms by (simp add: parse_line_def)

lemma parse_line_other_header:
  assumes "tableMatch (trim l) = Some inner" "length (split_on CHR ''.'' inner) \<noteq> 2"
  shows "parse_line st l = Inr st"
  using assms by (auto simp: parse_line_def Let_def split: list.splits)

lemma parse_line_kv:
  assumes "trim l = h" "h \<noteq> []" "\<not> startsWith h ''#''" "tableMatch h = None"
      and "kvMatch h = Some (k, v)" "parse_value v = Some x"
      and "currentSection st = Some s" "s \<noteq> []" "currentTable st = Some t" "t \<noteq> []"
  shows "parse_line st l = Inr (st\<lparr>result := assign_in_table (result st) s t k x\<rparr>)"
  using assms by (simp add: parse_line_def truthy_name_def)

lemma header_line:
  assumes "name_ok s" "name_ok t"
  shows "parse_line st (''['' @ s @ ''.'' @ t @ '']'') =
         Inr \<lparr>result = open_table (result st) s t, currentSection = Some s,
              currentTable = Some t\<rparr>"
proof (rule parse_line_header)
  show "s \<notin> set prototype_names" "t \<notin> set prototype_names"
    using assms by (simp_all add: name_ok_def)
  show "trim (''['' @ s @ ''.'' @ t @ '']'') = ''['' @ s @ ''.'' @ t @ '']''"
    by (rule trim_id) (simp_all add: is_space_def)
  show "''['' @ s @ ''.'' @ t @ '']'' \<noteq> []" by simp
  show "\<not> startsWith (''['' @ s @ ''.'' @ t @ '']'') ''#''" by (simp add: startsWith_def)
  have "tableMatch (''['' @ (s @ ''.'' @ t) @ '']'') = Some (s @ ''.'' @ t)"
    using assms by (intro tableMatch_header) (auto simp: name_ok_def)
  then show "tableMatch (''['' @ s @ ''.'' @ t @ '']'') = Some (s @ ''.'' @ t)" by simp
  have "split_on CHR ''.'' (s @ CHR ''.'' # t) = s # split_on CHR ''.'' t"
    using assms by (intro split_on_append) (simp add: name_ok_def)
  also have "split_on CHR ''.'' t = [t]"
    using assms by (intro split_on_single) (simp add: name_ok_def)
  finally show "split_on CHR ''.'' (s @ ''.'' @ t) = [s, t]" by simp
qed

lemma kvMatch_line:
  assumes "key_ok k" "v \<noteq> []" "\<not> is_space (hd v)" "str_ok v"
  shows "kvMatch (k @ '' = '' @ v) = Some (k, v)"
proof -
  have w: "\<not> is_word CHR '' ''" "is_space CHR '' ''" "\<not> is_space CHR ''=''"
    by (simp_all add: is_word_def is_space_def)
  from assms have allw: "\<forall>c \<in> set k. is_word c" and kne: "k \<noteq> []"
    by (simp_all add: key_ok_def list_all_iff)
  have tw: "takeWhile is_word (k @ '' = '' @ v) = k"
    using allw w by (simp add: takeWhile_append2)
  have dw: "dropWhile is_word (k @ '' = '' @ v) = CHR '' '' # CHR ''='' # CHR '' '' # v"
    using allw w by (simp add: dropWhile_append2)
  have ds: "dropWhile is_space (CHR '' '' # CHR ''='' # CHR '' '' # v) = CHR ''='' # CHR '' '' # v"
    using w by simp
  have dv: "dropWhile is_space (CHR '' '' # v) = v"
    using w assms(2,3) by (cases v) auto
  from assms(4) have nt: "\<not> (\<exists>x \<in> set v. is_line_terminator x)"
    by (simp add: str_ok_def list_all_iff)
  show ?thesis
    unfolding kvMatch_def tw dw ds Let_def list.case dv using kne nt assms(2)
    by simp
qed

lemma quote_props:
  "quote s \<noteq> []" "hd (quote s) = CHR ''\"''" "last (quote s) = CHR ''\"''"
  "startsWith (quote s) ''\"''" "endsWith (quote s) ''\"''" "slice_1_m1 (quote s) = s"
  "\<not> startsWith (quote s) ''[''"
  by (simp_all add: quote_def startsWith_def endsWith_def slice_1_m1_def butlast_append)

lemma parse_value_string: "parse_value (quote s) = Some (JStr s)"
  by (simp add: parse_value_def quote_props)

lemma parse_item_quote: "parse_item (quote e) = JStr e"
proof -
  have "trim (quote e) = quote e"
    by (rule trim_id) (simp_all add: quote_props is_space_def)
  then show ?thesis by (simp add: parse_item_def quote_props)
qed

lemma parse_item_space: "parse_item (CHR '' '' # w) = parse_item w"
  by (simp add: parse_item_def trim_space_Cons is_space_def)

lemma items_of_join:
  assumes "es \<noteq> []" "\<forall>e \<in> set es. CHR '','' \<notin> set e"
  shows "map parse_item (split_on CHR '','' (join '', '' (map quote es))) = map JStr es"
  using assms
proof (induction es rule: induct_list012)
  case 1
  then show ?case by simp
next
  case (2 e)
  then have "split_on CHR '','' (quote e) = [quote e]"
    by (intro split_on_single) (simp add: quote_def)
  then show ?case by (simp add: parse_item_quote)
next
  case (3 e f es)
  let ?rest = "join '', '' (map quote (f # es))"
  have c: "CHR '','' \<notin> set (quote e)" using 3 by (simp add: quote_def)
  have "join '', '' (map quote (e # f # es)) = quote e @ CHR '','' # (CHR '' '' # ?rest)"
    by simp
  moreover have "split_on CHR '','' (quote e @ CHR '','' # (CHR '' '' # ?rest)) =
             quote e # split_on CHR '','' (CHR '' '' # ?rest)"
    by (rule split_on_append [OF c])
  ultimately have "split_on CHR '','' (join '', '' (map quote (e # f # es))) =
             quote e # split_on CHR '','' (CHR '' '' # ?rest)"
    by (simp only:)
  also have "split_on CHR '','' (CHR '' '' # ?rest) =
             (CHR '' '' # hd (split_on CHR '','' ?rest)) # tl (split_on CHR '','' ?rest)"
    by (rule split_on_Cons_other) simp
  finally have "map parse_item (split_on CHR '','' (join '', '' (map quote (e # f # es)))) =
      JStr e # parse_item (hd (split_on CHR '','' ?rest)) # map parse_item (tl (split_on CHR '','' ?rest))"
    by (simp add: parse_item_quote parse_item_space)
  also have "parse_item (hd (split_on CHR '','' ?rest)) # map parse_item (tl (split_on CHR '','' ?rest))
      = map parse_item (split_on CHR '','' ?rest)"
    using split_on_nonempty [of "CHR '',''" ?rest] by (cases "split_on CHR '','' ?rest") auto
  also have "\<dots> = map JStr (f # es)" using 3 by simp
  finally show ?case by simp
qed

lemma close_bracket_join:
  assumes "\<forall>c \<in> set j. \<not> is_line_terminator c"
  shows "close_bracket (j @ '']'') = Some j"
proof -
  have "\<not> is_line_terminator CHR '']''" by (simp add: is_line_terminator_def)
  with assms have "takeWhile (\<lambda>c. \<not> is_line_terminator c) (j @ '']'') = j @ '']''"
    by (simp add: takeWhile_eq_all_conv)
  then show ?thesis by (simp add: close_bracket_def)
qed

lemma arrayMatch_brackets:
  assumes "\<forall>c \<in> set j. \<not> is_line_terminator c"
  shows "arrayMatch (''['' @ j @ '']'') = Some j"
  using close_bracket_join [OF assms] by simp

lemma join_chars:
  "set (join sep ls) \<subseteq> set sep \<union> \<Union> (set ` set ls)"
  by (induction ls rule: induct_list012) auto

lemma elems_strings:
  assumes "list_all elem_ok xs"
  shows "xs = map JStr (map js_string xs)
       \<and> (\<forall>e \<in> set (map js_string xs). CHR '','' \<notin> set e \<and> str_ok e)"
  using assms
proof (induction xs)
  case Nil
  then show ?case by simp
next
  case (Cons x xs)
  then show ?case by (cases x) auto
qed

lemma value_line_string: "value_line (k, JStr s) = k @ '' = '' @ quote s"
  by (simp add: value_line_def quote_def)

lemma value_line_array:
  "value_line (k, JArr xs) = k @ '' = '' @ (''['' @ join '', '' (map quote (map js_string xs)) @ '']'')"
  by (simp add: value_line_def quote_def comp_def)

lemma quote_str_ok: "str_ok e \<Longrightarrow> str_ok (quote e)"
  by (simp add: str_ok_def quote_def is_line_terminator_def)

lemma array_text_ok:
  assumes "\<forall>e \<in> set es. str_ok e"
  shows "\<forall>c \<in> set (join '', '' (map quote es)). \<not> is_line_terminator c"
proof
  fix c assume "c \<in> set (join '', '' (map quote es))"
  then have "c \<in> set '', '' \<union> \<Union> (set ` set (map quote es))"
    using join_chars by blast
  then consider "c \<in> set '', ''" | e where "e \<in> set es" "c \<in> set (quote e)" by auto
  then show "\<not> is_line_terminator c"
  proof cases
    case 1
    then show ?thesis by (auto simp: is_line_terminator_def)
  next
    case 2
    then show ?thesis using assms quote_str_ok [of e] by (auto simp: str_ok_def list_all_iff)
  qed
qed

text \<open>The text that the serializer writes for a supported value, and what the parser
  reads back from it.\<close>

lemma value_text:
  assumes "value_ok v"
  obtains vtext where "value_line (k, v) = k @ '' = '' @ vtext" "vtext \<noteq> []" "\<not> is_space (hd vtext)"
    "\<not> is_space (last vtext)" "str_ok vtext" "parse_value vtext = Some v"
proof (cases v)
  case (JStr s)
  have "str_ok (quote s)" using assms JStr by (simp add: quote_str_ok)
  then show ?thesis
    using that [of "quote s"] JStr
    by (simp add: value_line_string quote_props parse_value_string is_space_def)
next
  case (JArr xs)
  let ?es = "map js_string xs"
  let ?j = "join '', '' (map quote ?es)"
  let ?vt = "''['' @ ?j @ '']''"
  from assms JArr have ne: "xs \<noteq> []" and ok: "list_all elem_ok xs" by simp_all
  from elems_strings [OF ok] have xs: "xs = map JStr ?es"
    and es: "\<forall>e \<in> set ?es. CHR '','' \<notin> set e \<and> str_ok e" by blast+
  have nt: "\<forall>c \<in> set ?j. \<not> is_line_terminator c"
    using es by (intro array_text_ok) blast
  have am: "arrayMatch ?vt = Some ?j" by (rule arrayMatch_brackets [OF nt])
  have items: "map parse_item (split_on CHR '','' ?j) = map JStr ?es"
    using ne es by (intro items_of_join) auto
  have pv: "parse_value ?vt = Some v"
    unfolding parse_value_def am using items xs JArr by (simp add: startsWith_def)
  have so: "str_ok ?vt"
    using nt by (simp add: str_ok_def list_all_iff is_line_terminator_def)
  show ?thesis
    using that [of ?vt] pv so JArr
    by (simp add: value_line_array is_space_def del: append.simps append_Cons)
qed (use assms in simp_all)

lemma word_facts:
  assumes "is_word c"
  shows "c \<noteq> CHR ''[''" "c \<noteq> CHR ''#''" "c \<noteq> CHR 0x0A" "\<not> is_space c"
  using assms by (auto simp: is_word_def is_space_def Let_def)

lemma kv_line:
  assumes "key_ok k" "value_ok v"
      and "currentSection st = Some s" "s \<noteq> []" "currentTable st = Some t" "t \<noteq> []"
  shows "parse_line st (value_line (k, v)) =
         Inr (st\<lparr>result := assign_in_table (result st) s t k v\<rparr>)"
proof -
  from assms(2) obtain vtext where line: "value_line (k, v) = k @ '' = '' @ vtext"
    and vtext: "vtext \<noteq> []" "\<not> is_space (hd vtext)" "\<not> is_space (last vtext)" "str_ok vtext"
      "parse_value vtext = Some v"
    by (rule value_text)
  let ?l = "k @ '' = '' @ vtext"
  from assms(1) obtain c k' where k: "k = c # k'" and c: "is_word c"
    by (cases k) (auto simp: key_ok_def)
  have hd: "hd ?l = c" and last: "last ?l = last vtext" using k vtext(1) by simp_all
  have tr: "trim ?l = ?l"
    by (rule trim_id) (use hd last vtext(3) word_facts [OF c] in simp_all)
  have tm: "tableMatch ?l = None"
    using k word_facts [OF c] by (simp add: tableMatch_def)
  have nc: "\<not> startsWith ?l ''#''"
    using k word_facts [OF c] by (simp add: startsWith_def)
  have km: "kvMatch ?l = Some (k, vtext)"
    using assms(1) vtext by (intro kvMatch_line)
  show ?thesis
    unfolding line
    by (rule parse_line_kv [OF tr _ nc tm km vtext(5) assms(3-6)]) (simp add: k)
qed

subsection \<open>Assignments at the end of an object\<close>

lemma proto_is_prototype_name: "''__proto__'' \<in> set prototype_names"
  by (simp add: prototype_names_def)

lemma name_ok_not_proto: "name_ok n \<Longrightarrow> n \<noteq> ''__proto__''"
  using proto_is_prototype_name by (auto simp: name_ok_def)

lemma obj_get_last: "k \<notin> fst ` set xs \<Longrightarrow> obj_get (xs @ [(k, v)]) k = Some v"
  by (induction xs) (auto simp: obj_get_def)

lemma obj_get_absent: "k \<notin> fst ` set xs \<Longrightarrow> obj_get xs k = None"
  by (simp add: obj_get_def map_of_eq_None_iff)

lemma define_prop_new: "k \<notin> fst ` set xs \<Longrightarrow> define_prop xs k v = xs @ [(k, v)]"
  by (induction xs) (auto simp: define_prop_def)

lemma define_prop_last:
  "k \<notin> fst ` set xs \<Longrightarrow> define_prop (xs @ [(k, u)]) k v = xs @ [(k, v)]"
  by (induction xs) (auto simp: define_prop_def)

lemma obj_set_new:
  "k \<notin> fst ` set xs \<Longrightarrow> k \<noteq> ''__proto__'' \<Longrightarrow> obj_set xs k v = xs @ [(k, v)]"
  by (simp add: obj_set_plain define_prop_new)

lemma open_table_new:
  assumes "s \<notin> fst ` set d" "t \<notin> fst ` set tabs" "s \<noteq> ''__proto__''" "t \<noteq> ''__proto__''"
  shows "open_table (with_section d s tabs) s t = d @ [(s, JObj (tabs @ [(t, JObj [])]))]"
proof (cases "tabs = []")
  case True
  then show ?thesis using assms
    by (simp add: with_section_def open_table_def falsy_at_def obj_get_absent obj_set_new
          obj_get_last define_prop_last)
next
  case False
  then show ?thesis using assms
    by (simp add: with_section_def open_table_def falsy_at_def obj_get_absent obj_set_new
          obj_get_last define_prop_last)
qed

lemma assign_in_table_new:
  assumes "s \<notin> fst ` set d" "t \<notin> fst ` set tabs" "k \<notin> fst ` set cfg" "k \<noteq> ''__proto__''"
  shows "assign_in_table (d @ [(s, JObj (tabs @ [(t, JObj cfg)]))]) s t k v =
         d @ [(s, JObj (tabs @ [(t, JObj (cfg @ [(k, v)]))]))]"
  using assms
  by (simp add: assign_in_table_def obj_get_last define_prop_last obj_set_new)

subsection \<open>Reading back a table, a section, a document\<close>

lemma read_values:
  assumes "s \<notin> fst ` set d" "t \<notin> fst ` set tabs" "s \<noteq> []" "t \<noteq> []"
      and "distinct (map fst (c1 @ cfg))"
      and "list_all (\<lambda>kv. key_ok (fst kv) \<and> value_ok (snd kv)) cfg"
  shows "parse_lines
           \<lparr>result = d @ [(s, JObj (tabs @ [(t, JObj c1)]))],
            currentSection = Some s, currentTable = Some t\<rparr>
           (map value_line cfg) =
         Inr \<lparr>result = d @ [(s, JObj (tabs @ [(t, JObj (c1 @ cfg))]))],
              currentSection = Some s, currentTable = Some t\<rparr>"
  using assms(5,6)
proof (induction cfg arbitrary: c1)
  case Nil
  then show ?case by simp
next
  case (Cons kv cfg)
  obtain k v where kv: "kv = (k, v)" by (cases kv)
  from Cons.prems kv have ok: "key_ok k" "value_ok v" and fresh: "k \<notin> fst ` set c1"
    by auto
  from ok(1) have np: "k \<noteq> ''__proto__''" by (simp add: key_ok_def)
  have step: "parse_line
           \<lparr>result = d @ [(s, JObj (tabs @ [(t, JObj c1)]))],
            currentSection = Some s, currentTable = Some t\<rparr> (value_line (k, v)) =
           Inr \<lparr>result = d @ [(s, JObj (tabs @ [(t, JObj (c1 @ [(k, v)]))]))],
                currentSection = Some s, currentTable = Some t\<rparr>"
    using kv_line [OF ok, where s = s and t = t] assms(3,4)
    by (simp add: assign_in_table_new [OF assms(1,2) fresh np])
  have "distinct (map fst ((c1 @ [(k, v)]) @ cfg))" using Cons.prems(1) kv by simp
  moreover have "list_all (\<lambda>kv. key_ok (fst kv) \<and> value_ok (snd kv)) cfg"
    using Cons.prems(2) by simp
  ultimately show ?case
    using Cons.IH [of "c1 @ [(k, v)]"] step kv by simp
qed

lemma table_lines_ok:
  "table_lines s (t, JObj cfg) = (''['' @ s @ ''.'' @ t @ '']'') # map value_line cfg @ [[]]"
  by (simp add: table_lines_def not_an_object_def)

lemma read_table:
  assumes "s \<notin> fst ` set d" "t \<notin> fst ` set tabs" "name_ok s" "table_ok (t, JObj cfg)"
      and "result st = with_section d s tabs"
  shows "parse_lines st (table_lines s (t, JObj cfg)) =
         Inr \<lparr>result = d @ [(s, JObj (tabs @ [(t, JObj cfg)]))],
              currentSection = Some s, currentTable = Some t\<rparr>"
proof -
  from assms(3,4) have n: "name_ok s" "name_ok t" "s \<noteq> []" "t \<noteq> []"
    by (simp_all add: name_ok_def)
  from assms(4) have cfg: "distinct (map fst ([] @ cfg))"
      "list_all (\<lambda>kv. key_ok (fst kv) \<and> value_ok (snd kv)) cfg" by simp_all
  have hdr: "parse_line st (''['' @ s @ ''.'' @ t @ '']'') =
        Inr \<lparr>result = d @ [(s, JObj (tabs @ [(t, JObj [])]))],
             currentSection = Some s, currentTable = Some t\<rparr>"
    by (simp only: header_line [OF n(1,2)] assms(5)
          open_table_new [OF assms(1,2) name_ok_not_proto [OF n(1)] name_ok_not_proto [OF n(2)]])
  have "parse_lines st (table_lines s (t, JObj cfg)) =
        parse_lines \<lparr>result = d @ [(s, JObj (tabs @ [(t, JObj [])]))],
             currentSection = Some s, currentTable = Some t\<rparr> (map value_line cfg @ [[]])"
    unfolding table_lines_ok by (simp only: parse_lines.simps hdr sum.case)
  also have "\<dots> = Inr \<lparr>result = d @ [(s, JObj (tabs @ [(t, JObj cfg)]))],
              currentSection = Some s, currentTable = Some t\<rparr>"
    using read_values [OF assms(1,2) n(3,4) cfg]
    by (simp add: parse_lines_append blank_line)
  finally show ?thesis .
qed

lemma read_section:
  assumes "s \<notin> fst ` set d" "name_ok s"
      and "distinct (map fst (t1 @ tabs))" "list_all table_ok tabs"
      and "result st = with_section d s t1"
  shows "\<exists>st'. parse_lines st (concat (map (table_lines s) tabs)) = Inr st'
              \<and> result st' = with_section d s (t1 @ tabs)"
  using assms(3-5)
proof (induction tabs arbitrary: t1 st)
  case Nil
  then show ?case by simp
next
  case (Cons tc tabs)
  from Cons.prems(2) obtain t cfg where tc: "tc = (t, JObj cfg)" and ok: "table_ok (t, JObj cfg)"
    by (cases tc; cases "snd tc") auto
  from Cons.prems(1) tc have fresh: "t \<notin> fst ` set t1" by auto
  let ?st = "\<lparr>result = d @ [(s, JObj (t1 @ [(t, JObj cfg)]))],
          currentSection = Some s, currentTable = Some t\<rparr>"
  have one: "parse_lines st (table_lines s (t, JObj cfg)) = Inr ?st"
    by (rule read_table [OF assms(1) fresh assms(2) ok Cons.prems(3)])
  have r: "result ?st = with_section d s (t1 @ [tc])"
    by (simp add: with_section_def tc)
  have "distinct (map fst ((t1 @ [tc]) @ tabs))" using Cons.prems(1) by simp
  moreover have "list_all table_ok tabs" using Cons.prems(2) by simp
  ultimately obtain st' where "parse_lines ?st (concat (map (table_lines s) tabs)) = Inr st'"
      "result st' = with_section d s ((t1 @ [tc]) @ tabs)"
    using r Cons.IH [of "t1 @ [tc]" ?st] by blast
  then show ?case by (simp add: tc parse_lines_append one)
qed

lemma read_document:
  assumes "distinct (map fst (d1 @ d))" "list_all section_ok d" "result st = d1"
  shows "\<exists>st'. parse_lines st (concat (map section_lines d)) = Inr st' \<and> result st' = d1 @ d"
  using assms
proof (induction d arbitrary: d1 st)
  case Nil
  then show ?case by simp
next
  case (Cons sc d)
  from Cons.prems(2) obtain s tabs where sc: "sc = (s, JObj tabs)"
    and ok: "name_ok s" "tabs \<noteq> []" "distinct (map fst tabs)" "list_all table_ok tabs"
    by (cases sc; cases "snd sc") auto
  from Cons.prems(1) sc have fresh: "s \<notin> fst ` set d1" by auto
  have sl: "section_lines sc = concat (map (table_lines s) tabs)"
    by (simp add: sc section_lines_def not_an_object_def)
  have "result st = with_section d1 s []" using Cons.prems(3) by (simp add: with_section_def)
  with fresh ok obtain st1 where one: "parse_lines st (section_lines sc) = Inr st1"
    and "result st1 = with_section d1 s ([] @ tabs)"
    unfolding sl using read_section [of s d1 "[]" tabs st] by auto
  then have r: "result st1 = d1 @ [sc]" using ok(2) by (simp add: with_section_def sc)
  have "distinct (map fst ((d1 @ [sc]) @ d))" using Cons.prems(1) by simp
  moreover have "list_all section_ok d" using Cons.prems(2) by simp
  ultimately obtain st' where "parse_lines st1 (concat (map section_lines d)) = Inr st'"
      "result st' = (d1 @ [sc]) @ d"
    using r Cons.IH [of "d1 @ [sc]" st1] by blast
  then show ?case by (simp add: parse_lines_append one)
qed

subsection \<open>The lines of a supported document hold no line feed\<close>

lemma value_line_no_newline:
  assumes "key_ok k" "value_ok v"
  shows "CHR 0x0A \<notin> set (value_line (k, v))"
proof -
  from assms(2) obtain vtext where line: "value_line (k, v) = k @ '' = '' @ vtext"
    and "str_ok vtext"
    by (rule value_text)
  then have "CHR 0x0A \<notin> set vtext"
    by (auto simp: str_ok_def list_all_iff is_line_terminator_def)
  moreover have "CHR 0x0A \<notin> set k"
    using assms(1) word_facts(3) by (auto simp: key_ok_def list_all_iff)
  ultimately show ?thesis by (simp add: line)
qed

lemma table_lines_no_newline:
  assumes "name_ok s" "table_ok tc" "l \<in> set (table_lines s tc)"
  shows "CHR 0x0A \<notin> set l"
proof -
  from assms(2) obtain t cfg where tc: "tc = (t, JObj cfg)" and t: "name_ok t"
    and cfg: "list_all (\<lambda>kv. key_ok (fst kv) \<and> value_ok (snd kv)) cfg"
    by (cases tc; cases "snd tc") auto
  from assms(3) consider "l = ''['' @ s @ ''.'' @ t @ '']''" | "l \<in> value_line ` set cfg" | "l = []"
    unfolding tc table_lines_ok by auto
  then show ?thesis
  proof cases
    case 1
    then show ?thesis using assms(1) t by (simp add: name_ok_def)
  next
    case 2
    then obtain k v where "(k, v) \<in> set cfg" "l = value_line (k, v)" by auto
    then show ?thesis using cfg value_line_no_newline [of k v] by (auto simp: list_all_iff)
  next
    case 3
    then show ?thesis by simp
  qed
qed

lemma document_lines_no_newline:
  assumes "list_all section_ok d" "l \<in> set (concat (map section_lines d))"
  shows "CHR 0x0A \<notin> set l"
proof -
  from assms(2) obtain sc where sc: "sc \<in> set d" "l \<in> set (section_lines sc)" by auto
  with assms(1) have "section_ok sc" by (simp add: list_all_iff)
  then obtain s tabs where "sc = (s, JObj tabs)" "name_ok s" "list_all table_ok tabs"
    by (cases sc; cases "snd sc") auto
  with sc(2) obtain tc where "tc \<in> set tabs" "l \<in> set (table_lines s tc)" "table_ok tc" "name_ok s"
    by (auto simp: section_lines_def not_an_object_def list_all_iff)
  then show ?thesis using table_lines_no_newline by blast
qed

text \<open>
  C2, as amended. For every document of the subset that \<open>toml_document\<close> defines
  (two-level tables with names that are not empty, hold no dot, closing bracket or line
  feed and are no property names of \<^verbatim>\<open>Object.prototype\<close>; keys made of word characters
  other than \<^verbatim>\<open>__proto__\<close>; string values without line terminators; non-empty arrays of
  strings without commas and line terminators; no section without a table), parsing the
  serialized document returns the document.
\<close>

theorem toml_round_trip:
  assumes "toml_document d"
  shows "parseSimpleToml (stringifySimpleToml d) = Inr d"
proof -
  let ?ls = "concat (map section_lines d)"
  let ?init = "\<lparr>result = [], currentSection = None, currentTable = None\<rparr>"
  from assms have ok: "distinct (map fst ([] @ d))" "list_all section_ok d"
    by (simp_all add: toml_document_def)
  from read_document [OF ok, of ?init] obtain st'
    where all: "parse_lines ?init ?ls = Inr st'" "result st' = d" by auto
  show ?thesis
  proof (cases "?ls = []")
    case True
    from all have "d = []" unfolding True by auto
    moreover have "split_on CHR 0x0A (join [CHR 0x0A] ?ls) = [[]]" unfolding True by simp
    ultimately show ?thesis
      unfolding parseSimpleToml_def stringifySimpleToml_def by (simp add: blank_line)
  next
    case False
    then have "split_on CHR 0x0A (join [CHR 0x0A] ?ls) = ?ls"
      using document_lines_no_newline [OF ok(2)] by (intro split_join) auto
    then show ?thesis
      unfolding parseSimpleToml_def stringifySimpleToml_def using all by simp
  qed
qed

theorem toml_round_trip_witness:
  "toml_document [(''mcp_servers'', JObj [(''wcag'', JObj [(''command'', JStr ''node''), (''args'', JArr [JStr ''index.js''])])])]
   \<and> parseSimpleToml (stringifySimpleToml [(''mcp_servers'', JObj [(''wcag'', JObj [(''command'', JStr ''node''), (''args'', JArr [JStr ''index.js''])])])])
     = Inr [(''mcp_servers'', JObj [(''wcag'', JObj [(''command'', JStr ''node''), (''args'', JArr [JStr ''index.js''])])])]"
proof -
  have h: "toml_document [(''mcp_servers'', JObj [(''wcag'', JObj [(''command'', JStr ''node''), (''args'', JArr [JStr ''index.js''])])])]"
    by code_simp
  show ?thesis using h toml_round_trip [OF h] by simp
qed

text \<open>
  C2 as stated fails on arrays of strings: the serializer does not escape a comma inside
  an element, and the parser splits the array text at every comma. The document
  \<^verbatim>\<open>{mcp_servers: {wcag: {command: "node", args: ["-e", "f(1,2)"]}}}\<close> has two-level
  tables, a string value and an array of strings, and the parser returns another
  document for its serialization: one with three arguments.
\<close>

theorem toml_round_trip_counterexample:
  "parseSimpleToml (stringifySimpleToml
     [(''mcp_servers'', JObj [(''wcag'', JObj [(''command'', JStr ''node''),
        (''args'', JArr [JStr ''-e'', JStr ''f(1,2)''])])])])
   \<noteq> Inr [(''mcp_servers'', JObj [(''wcag'', JObj [(''command'', JStr ''node''),
        (''args'', JArr [JStr ''-e'', JStr ''f(1,2)''])])])]"
  by code_simp

text \<open>What the parser returns there.\<close>

lemma toml_comma_split:
  "parseSimpleToml (stringifySimpleToml
     [(''mcp_servers'', JObj [(''wcag'', JObj [(''command'', JStr ''node''),
        (''args'', JArr [JStr ''-e'', JStr ''f(1,2)''])])])])
   = Inr [(''mcp_servers'', JObj [(''wcag'', JObj [(''command'', JStr ''node''),
        (''args'', JArr [JStr ''-e'', JStr ''\"f(1'', JStr ''2)\"''])])])]"
  by code_simp

text \<open>
  The other limits of the subset. An empty array, which is what mergeServers writes for a
  server without arguments, is read back as an array holding the empty string (the text
  between the brackets is split at commas, and splitting the empty text gives one empty
  item). A string with a line feed is cut at the line feed. A section without tables
  leaves no line. A key \<^verbatim>\<open>__proto__\<close> is written by the serializer and its assignment by
  the parser adds no property. A section or table named as a property of
  \<^verbatim>\<open>Object.prototype\<close> makes the parser reach a built-in object: for
  \<^verbatim>\<open>{constructor: {x: {k: "v"}}}\<close> the header \<^verbatim>\<open>[constructor.x]\<close> finds the function
  \<^verbatim>\<open>Object\<close> under \<^verbatim>\<open>result["constructor"]\<close>, and the table is created on that function
  and not in the result.
\<close>

lemma toml_empty_array:
  "parseSimpleToml (stringifySimpleToml
     [(''mcp_servers'', JObj [(''wcag'', JObj [(''command'', JStr ''node''), (''args'', JArr [])])])])
   = Inr [(''mcp_servers'', JObj [(''wcag'', JObj [(''command'', JStr ''node''),
        (''args'', JArr [JStr []])])])]"
  by code_simp

lemma toml_line_feed:
  "parseSimpleToml (stringifySimpleToml
     [(''s'', JObj [(''t'', JObj [(''k'', JStr [CHR ''a'', CHR 0x0A, CHR ''b''])])])])
   = Inr [(''s'', JObj [(''t'', JObj [(''k'', JStr ''\"a'')])])]"
  by code_simp

lemma toml_empty_section:
  "parseSimpleToml (stringifySimpleToml [(''s'', JObj [])]) = Inr []"
  by code_simp

lemma toml_proto_key:
  "parseSimpleToml (stringifySimpleToml [(''s'', JObj [(''t'', JObj [(''__proto__'', JStr ''v'')])])])
   = Inr [(''s'', JObj [(''t'', JObj [])])]"
  by code_simp

lemma toml_prototype_name:
  "parseSimpleToml (stringifySimpleToml [(''constructor'', JObj [(''x'', JObj [(''k'', JStr ''v'')])])])
   = Inl (Builtin_object ''constructor'' ''x'')"
  by code_simp


subsection \<open>Headers that are not recognized\<close>

lemma obj_get_set_cases:
  "obj_get (obj_set ob k v) k' = Some w \<Longrightarrow> w = v \<or> obj_get ob k' = Some w"
  by (auto simp: obj_set_def obj_get_define split: if_splits)

lemma obj_get_set:
  "k \<noteq> ''__proto__'' \<Longrightarrow>
   obj_get (obj_set ob k v) k' = (if k' = k then Some v else obj_get ob k')"
  by (simp add: obj_set_plain obj_get_define)

lemma parsed_shape_section:
  assumes "parsed_shape res" "obj_get res s = Some v"
  obtains sec where "v = JObj sec" "\<forall>t w. obj_get sec t = Some w \<longrightarrow> (\<exists>tab. w = JObj tab)"
  using assms unfolding parsed_shape_def by blast

lemma parsed_shape_define:
  assumes "parsed_shape res" "\<forall>t w. obj_get sec t = Some w \<longrightarrow> (\<exists>tab. w = JObj tab)"
  shows "parsed_shape (define_prop res s (JObj sec))"
  using assms unfolding parsed_shape_def by (auto simp: obj_get_define)

lemma parsed_shape_set:
  assumes "parsed_shape res" "\<forall>t w. obj_get sec t = Some w \<longrightarrow> (\<exists>tab. w = JObj tab)"
  shows "parsed_shape (obj_set res s (JObj sec))"
  using assms by (auto simp: obj_set_def parsed_shape_define)

lemma tables_set:
  assumes "\<forall>t w. obj_get sec t = Some w \<longrightarrow> (\<exists>tab. w = JObj tab)"
  shows "\<forall>t' w. obj_get (obj_set sec t (JObj tab)) t' = Some w \<longrightarrow> (\<exists>tab. w = JObj tab)"
  using assms by (auto dest!: obj_get_set_cases)

lemma tables_define:
  assumes "\<forall>t w. obj_get sec t = Some w \<longrightarrow> (\<exists>tab. w = JObj tab)"
  shows "\<forall>t' w. obj_get (define_prop sec t (JObj tab)) t' = Some w \<longrightarrow> (\<exists>tab. w = JObj tab)"
  using assms by (auto simp: obj_get_define split: if_splits)

lemma open_table_cases:
  fixes res s t
  defines "r1 \<equiv> (if falsy_at res s then obj_set res s (JObj []) else res)"
  shows "open_table res s t = r1
       \<or> (\<exists>sec. obj_get r1 s = Some (JObj sec) \<and> falsy_at sec t
              \<and> open_table res s t = define_prop r1 s (JObj (obj_set sec t (JObj []))))"
  unfolding open_table_def r1_def [symmetric] Let_def
  by (auto split: option.splits jv.splits)

lemma open_table_shape:
  assumes "parsed_shape res"
  shows "parsed_shape (open_table res s t)"
proof -
  define r1 where "r1 = (if falsy_at res s then obj_set res s (JObj []) else res)"
  have s1: "parsed_shape r1"
    unfolding r1_def using assms by (auto intro: parsed_shape_set simp: obj_get_def)
  from open_table_cases [of res s t] consider "open_table res s t = r1"
    | sec where "obj_get r1 s = Some (JObj sec)"
        "open_table res s t = define_prop r1 s (JObj (obj_set sec t (JObj [])))"
    unfolding r1_def by blast
  then show ?thesis
  proof cases
    case 1
    with s1 show ?thesis by simp
  next
    case 2
    from s1 2(1) have "\<forall>t w. obj_get sec t = Some w \<longrightarrow> (\<exists>tab. w = JObj tab)"
      by (auto elim: parsed_shape_section)
    then show ?thesis unfolding 2(2) by (intro parsed_shape_define [OF s1] tables_set)
  qed
qed

lemma open_table_opens:
  assumes "parsed_shape res" "s \<noteq> ''__proto__''" "t \<noteq> ''__proto__''"
  shows "\<exists>sec tab. obj_get (open_table res s t) s = Some (JObj sec) \<and> obj_get sec t = Some (JObj tab)"
proof -
  define r1 where "r1 = (if falsy_at res s then obj_set res s (JObj []) else res)"
  have s1: "parsed_shape r1"
    unfolding r1_def using assms(1) by (auto intro: parsed_shape_set simp: obj_get_def)
  have "\<exists>v. obj_get r1 s = Some v"
    unfolding r1_def using assms(2)
    by (auto simp: falsy_at_def obj_get_set split: option.splits)
  then obtain v where v: "obj_get r1 s = Some v" by blast
  from s1 v obtain sec where sec: "v = JObj sec"
    and tabs: "\<forall>t w. obj_get sec t = Some w \<longrightarrow> (\<exists>tab. w = JObj tab)"
    by (rule parsed_shape_section)
  have ot: "open_table res s t =
      (if falsy_at sec t then define_prop r1 s (JObj (obj_set sec t (JObj []))) else r1)"
    unfolding open_table_def r1_def [symmetric] Let_def using v sec by simp
  show ?thesis
  proof (cases "falsy_at sec t")
    case True
    with ot assms(3) show ?thesis by (auto simp: obj_get_define obj_get_set)
  next
    case False
    then obtain w where w: "obj_get sec t = Some w"
      by (auto simp: falsy_at_def split: option.splits)
    with tabs obtain tab where "w = JObj tab" by blast
    with False ot v sec w show ?thesis by auto
  qed
qed

lemma assign_in_table_shape:
  assumes "parsed_shape res"
  shows "parsed_shape (assign_in_table res s t k x)"
proof (cases "obj_get res s")
  case None
  then show ?thesis using assms by (simp add: assign_in_table_def)
next
  case (Some v)
  with assms obtain sec where sec: "v = JObj sec"
    and tabs: "\<forall>t w. obj_get sec t = Some w \<longrightarrow> (\<exists>tab. w = JObj tab)"
    by (rule parsed_shape_section)
  show ?thesis
  proof (cases "obj_get sec t")
    case None
    then show ?thesis using assms Some sec by (simp add: assign_in_table_def)
  next
    case (Some w)
    with tabs obtain tab where tab: "w = JObj tab" by blast
    have "parsed_shape (define_prop res s (JObj (define_prop sec t (JObj (obj_set tab k x)))))"
      by (intro parsed_shape_define [OF assms] tables_define tabs)
    then show ?thesis using \<open>obj_get res s = Some v\<close> sec Some tab
      by (simp add: assign_in_table_def)
  qed
qed

lemma assign_in_table_get:
  assumes "obj_get res s = Some (JObj sec)" "obj_get sec t = Some (JObj tab)" "k \<noteq> ''__proto__''"
  shows "table_get (assign_in_table res s t k x) s t k = Some x"
  using assms by (simp add: assign_in_table_def table_get_def obj_get_define obj_get_set)

lemma parse_line_shape:
  assumes "parsed_shape (result st)" "parse_line st l = Inr st'"
  shows "parsed_shape (result st')"
  using assms
  by (auto simp: parse_line_def Let_def open_table_shape assign_in_table_shape
           split: option.splits list.splits if_splits)

lemma tableMatch_SomeD:
  assumes "tableMatch h = Some inner"
  shows "h \<noteq> []" "\<not> startsWith h ''#''"
  using assms by (auto simp: tableMatch_def startsWith_def split: list.splits if_splits)

lemma kvMatch_SomeD:
  assumes "kvMatch h = Some (k, v)"
  shows "h \<noteq> []" "\<not> startsWith h ''#''" "tableMatch h = None"
proof -
  from assms have "takeWhile is_word h \<noteq> []"
    by (auto simp: kvMatch_def Let_def split: if_splits)
  then obtain c h' where h: "h = c # h'" and c: "is_word c"
    by (cases h) (auto split: if_splits)
  show "h \<noteq> []" using h by simp
  show "\<not> startsWith h ''#''" using h word_facts [OF c] by (simp add: startsWith_def)
  show "tableMatch h = None" using h word_facts [OF c] by (simp add: tableMatch_def)
qed

text \<open>The parser reaches a built-in object at the lines that \<open>names_builtin\<close> describes,
  and at no other line.\<close>

lemma parse_line_stops:
  "(\<exists>stop. parse_line st l = Inl stop) = names_builtin l"
  by (auto simp: parse_line_def names_builtin_def Let_def
           dest: tableMatch_SomeD split: option.splits list.splits if_splits)

lemma parse_lines_shape:
  assumes "\<forall>x \<in> set ls. \<not> names_builtin x" "parsed_shape (result st)"
  shows "\<exists>st'. parse_lines st ls = Inr st' \<and> parsed_shape (result st')"
  using assms
proof (induction ls arbitrary: st)
  case Nil
  then show ?case by simp
next
  case (Cons l ls)
  from Cons.prems(1) have "\<not> names_builtin l" by simp
  then obtain st1 where st1: "parse_line st l = Inr st1"
    using parse_line_stops [of st l] by (cases "parse_line st l") auto
  with Cons.prems(2) have "parsed_shape (result st1)" by (rule parse_line_shape)
  with Cons.IH [of st1] Cons.prems(1) st1 show ?case by simp
qed

text \<open>
  C9, as amended. A header line that the header pattern matches and whose name does not
  split into exactly two components at the dots leaves the state of the parser as it is,
  the open table included. So when such a line follows a header that opened the table
  \<open>s.t\<close> and a key-value line follows it, the value of that line is stored under its key
  in \<open>result[s][t]\<close>, provided that the line has a value to assign (\<open>parse_value\<close> gives
  one: the value text is not a bracket without a closing bracket), that \<open>s\<close> and \<open>t\<close> are
  not empty (an empty name counts as no open section or table), that the key is not
  \<^verbatim>\<open>__proto__\<close>, and that no header up to there names a property of \<^verbatim>\<open>Object.prototype\<close>.
\<close>

theorem unrecognized_header_keeps_table:
  assumes nl: "\<forall>x \<in> set (pre @ [h1, h2, l]). CHR 0x0A \<notin> set x"
      and pre: "\<forall>x \<in> set pre. \<not> names_builtin x"
      and h1: "tableMatch (trim h1) = Some inner1" "split_on CHR ''.'' inner1 = [s, t]"
              "s \<noteq> []" "t \<noteq> []" "s \<notin> set prototype_names" "t \<notin> set prototype_names"
      and h2: "tableMatch (trim h2) = Some inner2" "length (split_on CHR ''.'' inner2) \<noteq> 2"
      and kv: "kvMatch (trim l) = Some (k, v)" "parse_value v = Some x" "k \<noteq> ''__proto__''"
  shows "parse_line st h2 = Inr st
       \<and> parsed_get (parseSimpleToml (join [CHR 0x0A] (pre @ [h1, h2, l]))) s t k = Some x"
proof
  show keep: "parse_line st h2 = Inr st" for st
    by (rule parse_line_other_header [OF h2])
  let ?init = "\<lparr>result = [], currentSection = None, currentTable = None\<rparr>"
  have "parsed_shape (result ?init)" by (simp add: parsed_shape_def obj_get_def)
  with pre obtain st0 where st0: "parse_lines ?init pre = Inr st0"
    and sh: "parsed_shape (result st0)"
    using parse_lines_shape by blast
  define st1 where "st1 = \<lparr>result = open_table (result st0) s t,
                      currentSection = Some s, currentTable = Some t\<rparr>"
  have one: "parse_line st0 h1 = Inr st1"
    unfolding st1_def
    by (rule parse_line_header [OF refl tableMatch_SomeD [OF h1(1)] h1(1,2,5,6)])
  have np: "s \<noteq> ''__proto__''" "t \<noteq> ''__proto__''"
    using h1(5,6) proto_is_prototype_name by auto
  from open_table_opens [OF sh np] obtain sec tab
    where tab: "obj_get (result st1) s = Some (JObj sec)" "obj_get sec t = Some (JObj tab)"
    unfolding st1_def by auto
  have three: "parse_line st1 l = Inr (st1\<lparr>result := assign_in_table (result st1) s t k x\<rparr>)"
    by (rule parse_line_kv [OF refl kvMatch_SomeD [OF kv(1)] kv(1,2)])
       (simp_all add: st1_def h1)
  have "parse_lines ?init (pre @ [h1, h2, l]) =
        Inr (st1\<lparr>result := assign_in_table (result st1) s t k x\<rparr>)"
    by (simp add: parse_lines_append st0 one keep three)
  moreover have "split_on CHR 0x0A (join [CHR 0x0A] (pre @ [h1, h2, l])) = pre @ [h1, h2, l]"
    using nl by (intro split_join) simp_all
  ultimately show "parsed_get (parseSimpleToml (join [CHR 0x0A] (pre @ [h1, h2, l]))) s t k = Some x"
    using assign_in_table_get [OF tab kv(3)] by (simp add: parseSimpleToml_def parsed_get_def)
qed

theorem unrecognized_header_keeps_table_witness:
  "tableMatch (trim ''[mcp_servers.wcag]'') = Some ''mcp_servers.wcag''
   \<and> split_on CHR ''.'' ''mcp_servers.wcag'' = [''mcp_servers'', ''wcag'']
   \<and> tableMatch (trim ''  [tools]'') = Some ''tools''
   \<and> length (split_on CHR ''.'' ''tools'') = 1
   \<and> kvMatch (trim ''command = \"node\"'') = Some (''command'', ''\"node\"'')
   \<and> parse_value ''\"node\"'' = Some (JStr ''node'')
   \<and> \<not> names_builtin ''# servers''
   \<and> parse_line \<lparr>result = [], currentSection = Some ''mcp_servers'', currentTable = Some ''wcag''\<rparr>
        ''  [tools]''
      = Inr \<lparr>result = [], currentSection = Some ''mcp_servers'', currentTable = Some ''wcag''\<rparr>
   \<and> parsed_get
        (parseSimpleToml (join [CHR 0x0A]
           ([''# servers''] @ [''[mcp_servers.wcag]'', ''  [tools]'', ''command = \"node\"''])))
        ''mcp_servers'' ''wcag'' ''command'' = Some (JStr ''node'')"
proof -
  have nl: "\<forall>x \<in> set ([''# servers''] @ [''[mcp_servers.wcag]'', ''  [tools]'', ''command = \"node\"'']).
              CHR 0x0A \<notin> set x"
    by simp
  have nb: "\<not> names_builtin ''# servers''" by code_simp
  then have pre: "\<forall>x \<in> set [''# servers'']. \<not> names_builtin x" by simp
  have h1: "tableMatch (trim ''[mcp_servers.wcag]'') = Some ''mcp_servers.wcag''"
    "split_on CHR ''.'' ''mcp_servers.wcag'' = [''mcp_servers'', ''wcag'']"
    "''mcp_servers'' \<noteq> []" "''wcag'' \<noteq> []"
    "''mcp_servers'' \<notin> set prototype_names" "''wcag'' \<notin> set prototype_names"
    by code_simp+
  have h2: "tableMatch (trim ''  [tools]'') = Some ''tools''"
    "length (split_on CHR ''.'' ''tools'') \<noteq> 2"
    by code_simp+
  have len: "length (split_on CHR ''.'' ''tools'') = 1" by code_simp
  have kv: "kvMatch (trim ''command = \"node\"'') = Some (''command'', ''\"node\"'')"
    "parse_value ''\"node\"'' = Some (JStr ''node'')" "''command'' \<noteq> ''__proto__''"
    by code_simp+
  from unrecognized_header_keeps_table [OF nl pre h1 h2 kv] h1(1,2) h2(1) len kv(1,2) nb
  show ?thesis by blast
qed

text \<open>
  C9 as stated fails when the key-value line has no value to assign. In the input
  \<^verbatim>\<open>[mcp_servers.wcag]\<close>, \<^verbatim>\<open>[tools]\<close>, \<^verbatim>\<open>args = [a, b\<close> the first line is a two-level
  header, the second a header with one component, the third a line that the key-value
  pattern matches; its value starts with a bracket and holds no array, so nothing is
  assigned and the table \<^verbatim>\<open>mcp_servers.wcag\<close> stays empty.
\<close>

theorem unrecognized_header_keeps_table_counterexample:
  "tableMatch (trim ''[mcp_servers.wcag]'') = Some ''mcp_servers.wcag''
   \<and> split_on CHR ''.'' ''mcp_servers.wcag'' = [''mcp_servers'', ''wcag'']
   \<and> tableMatch (trim ''[tools]'') = Some ''tools''
   \<and> split_on CHR ''.'' ''tools'' = [''tools'']
   \<and> kvMatch (trim ''args = [a, b'') = Some (''args'', ''[a, b'')
   \<and> parseSimpleToml (join [CHR 0x0A] [''[mcp_servers.wcag]'', ''[tools]'', ''args = [a, b''])
       = Inr [(''mcp_servers'', JObj [(''wcag'', JObj [])])]
   \<and> parsed_get
        (parseSimpleToml (join [CHR 0x0A] [''[mcp_servers.wcag]'', ''[tools]'', ''args = [a, b'']))
        ''mcp_servers'' ''wcag'' ''args'' = None"
  by code_simp

text \<open>The pair is discarded in the same way, with or without the unrecognized header,
  after a header whose table name is empty (the empty name counts as no open table), and
  a pair with the key \<^verbatim>\<open>__proto__\<close> adds no property to the table.\<close>

lemma empty_table_name_drops_values:
  "parseSimpleToml (join [CHR 0x0A] [''[mcp_servers.]'', ''[tools]'', ''command = \"node\"'']) =
   Inr [(''mcp_servers'', JObj [([], JObj [])])]"
  by code_simp

lemma proto_key_adds_nothing:
  "parseSimpleToml (join [CHR 0x0A] [''[mcp_servers.wcag]'', ''[tools]'', ''__proto__ = \"node\"'']) =
   Inr [(''mcp_servers'', JObj [(''wcag'', JObj [])])]"
  by code_simp

lemma prototype_header_stops:
  "parseSimpleToml (join [CHR 0x0A] [''[__proto__.__proto__]'', ''[tools]'', ''command = \"node\"'']) =
   Inl (Builtin_object ''__proto__'' ''__proto__'')"
  by code_simp

section \<open>mergeServers and removeServers leave their input as it is\<close>

lemma extends_refl: "extends h h"
  by (simp add: extends_def)

lemma extends_length: "extends h h0 \<Longrightarrow> length h0 \<le> length h"
proof -
  assume "extends h h0"
  then have "length (take (length h0) h) = length h0" by (simp add: extends_def)
  then show ?thesis by simp
qed

lemma extends_alloc: "extends h h0 \<Longrightarrow> extends (fst (alloc h ob)) h0"
  using extends_length [of h h0] by (simp add: extends_def alloc_def)

lemma extends_update: "extends h h0 \<Longrightarrow> length h0 \<le> a \<Longrightarrow> extends (h[a := ob]) h0"
  by (simp add: extends_def)

lemma extends_define: "extends h h0 \<Longrightarrow> length h0 \<le> a \<Longrightarrow> extends (define_at h a k v) h0"
  by (simp add: define_at_def extends_update)

lemma extends_write: "extends h h0 \<Longrightarrow> length h0 \<le> a \<Longrightarrow> extends (write_prop h a k v) h0"
  by (simp add: write_prop_def extends_define)

lemma extends_delete: "extends h h0 \<Longrightarrow> length h0 \<le> a \<Longrightarrow> extends (delete_prop h a k) h0"
  by (simp add: delete_prop_def extends_update)

lemma entries_at_alloc: "a < length h \<Longrightarrow> entries_at (fst (alloc h ob)) a = entries_at h a"
  by (simp add: entries_at_def alloc_def nth_append)

lemma entries_at_write: "a \<noteq> b \<Longrightarrow> entries_at (write_prop h b k v) a = entries_at h a"
  by (simp add: entries_at_def write_prop_def define_at_def)

lemma entries_at_defined:
  "a < length h \<Longrightarrow> entries_at (define_at h a k v) a = AList.update k v (entries_at h a)"
  by (simp add: entries_at_def define_at_def)

lemma length_define: "length (define_at h a k v) = length h"
  by (simp add: define_at_def)

lemma length_write: "length (write_prop h a k v) = length h"
  by (simp add: write_prop_def define_at_def)

lemma length_alloc: "length (fst (alloc h ob)) = Suc (length h)" "snd (alloc h ob) = length h"
  by (simp_all add: alloc_def)

lemma merging_alloc:
  assumes "merging h0 merged sec k h"
  shows "merging h0 merged sec k (fst (alloc h ob))"
  using assms
  by (simp add: merging_def extends_alloc entries_at_alloc length_alloc)

lemma merging_write:
  assumes "merging h0 merged sec k h" "length h0 \<le> a" "a \<noteq> merged"
  shows "merging h0 merged sec k (write_prop h a n v)"
  using assms
  by (simp add: merging_def extends_write entries_at_write length_write)

lemma merge_step_merging:
  assumes "merging h0 merged sec k h"
  shows "merging h0 merged sec k (merge_step merged k h s)"
proof -
  obtain h1 a where arg: "(case h_args s of
                       Some v \<Rightarrow> if h_truthy v then (h, v)
                                 else (case alloc h (HArr []) of (h', r) \<Rightarrow> (h', HRef r))
                     | None \<Rightarrow> (case alloc h (HArr []) of (h', r) \<Rightarrow> (h', HRef r))) = (h1, a)"
    by (cases "case h_args s of
                       Some v \<Rightarrow> if h_truthy v then (h, v)
                                 else (case alloc h (HArr []) of (h', r) \<Rightarrow> (h', HRef r))
                     | None \<Rightarrow> (case alloc h (HArr []) of (h', r) \<Rightarrow> (h', HRef r))")
  then have "h1 = h \<or> h1 = fst (alloc h (HArr []))"
    by (auto split: option.splits if_splits prod.splits)
  with assms have m1: "merging h0 merged sec k h1" by (auto intro: merging_alloc)
  define h2 where "h2 = fst (alloc h1 (HObj [(''command'', h_command s), (''args'', a)]))"
  define cfg where "cfg = length h1"
  have al: "alloc h1 (HObj [(''command'', h_command s), (''args'', a)]) = (h2, cfg)"
    by (simp add: h2_def cfg_def alloc_def)
  have m2: "merging h0 merged sec k h2" unfolding h2_def by (rule merging_alloc [OF m1])
  have fresh: "length h0 \<le> cfg" "cfg \<noteq> merged"
    using m1 extends_length [of h1 h0] by (auto simp: merging_def cfg_def)
  define h3 where "h3 = (case h_type s of
                  Some t \<Rightarrow> if h_truthy t then write_prop h2 cfg ''type'' t else h2
                | None \<Rightarrow> h2)"
  have m3: "merging h0 merged sec k h3"
    unfolding h3_def using m2 fresh by (auto intro: merging_write split: option.splits)
  have sec: "map_of (entries_at h3 merged) k = Some (HRef sec)" "length h0 \<le> sec" "sec \<noteq> merged"
    using m3 by (simp_all add: merging_def)
  have "merge_step merged k h s = write_prop h3 sec (h_name s) (HRef cfg)"
    unfolding merge_step_def arg by (simp add: al h3_def [symmetric] sec(1))
  then show ?thesis using merging_write [OF m3 sec(2,3)] by simp
qed

lemma merge_loop_merging:
  "merging h0 merged sec k h \<Longrightarrow> merging h0 merged sec k (foldl (merge_step merged k) h incoming)"
  by (induction incoming arbitrary: h) (simp_all add: merge_step_merging)

lemma mergeServers_at_extends:
  "extends (fst (mergeServers_at h existing incoming k)) h
   \<and> length h \<le> snd (mergeServers_at h existing incoming k)"
proof -
  define h1 where "h1 = (case existingServers_at h existing k of Some a \<Rightarrow> h | None \<Rightarrow> fst (alloc h (HObj [])))"
  define es where "es = (case existingServers_at h existing k of Some a \<Rightarrow> a | None \<Rightarrow> length h)"
  have e1: "(case existingServers_at h existing k of
                        Some a \<Rightarrow> (h, a)
                      | None \<Rightarrow> alloc h (HObj [])) = (h1, es)"
    by (simp add: h1_def es_def alloc_def split: option.splits)
  have x1: "extends h1 h"
    unfolding h1_def by (auto simp: extends_refl extends_alloc split: option.splits)
  define merged where "merged = length h1"
  define h2 where "h2 = h1 @ [HObj (entries_at h1 existing)]"
  define sec where "sec = length h2"
  define h3 where "h3 = h2 @ [HObj (entries_at h2 es)]"
  define h4 where "h4 = define_at h3 merged k (HRef sec)"
  have len: "length h \<le> length h1" by (rule extends_length [OF x1])
  have x3: "extends h3 h"
    using x1 len by (simp add: h3_def h2_def extends_def)
  have ml: "length h \<le> merged" "length h \<le> sec" "merged < length h3" "sec \<noteq> merged"
    using len by (simp_all add: merged_def sec_def h3_def h2_def)
  have x4: "extends h4 h" unfolding h4_def by (rule extends_define [OF x3 ml(1)])
  have "map_of (entries_at h4 merged) k = Some (HRef sec)"
    unfolding h4_def by (simp add: entries_at_defined [OF ml(3)] update_conv')
  then have m4: "merging h merged sec k h4"
    unfolding merging_def using x4 ml by (simp add: h4_def length_define)
  have "mergeServers_at h existing incoming k = (foldl (merge_step merged k) h4 incoming, merged)"
    unfolding mergeServers_at_def e1
    by (simp add: alloc_def Let_def merged_def h2_def sec_def h3_def h4_def)
  moreover have "merging h merged sec k (foldl (merge_step merged k) h4 incoming)"
    by (rule merge_loop_merging [OF m4])
  ultimately show ?thesis by (simp add: merging_def)
qed

lemma remove_loop_extends:
  assumes "extends (fst hn) h0" "length h0 \<le> u"
  shows "extends (fst (foldl (remove_step u) hn names)) h0"
  using assms(1)
proof (induction names arbitrary: hn)
  case Nil
  then show ?case by simp
next
  case (Cons nm names)
  have "extends (fst (remove_step u hn nm)) h0"
    using Cons.prems assms(2) by (cases hn) (simp add: remove_step_def extends_delete)
  then show ?case using Cons.IH by simp
qed

lemma removeServers_at_extends:
  "extends (fst (removeServers_at h existing names k)) h"
proof (cases "existingServers_at h existing k")
  case None
  then show ?thesis by (simp add: removeServers_at_def extends_refl)
next
  case (Some es)
  define u where "u = length h"
  define h1 where "h1 = h @ [HObj (entries_at h es)]"
  obtain h2 n where loop: "foldl (remove_step u) (h1, 0) names = (h2, n)"
    by (cases "foldl (remove_step u) (h1, 0) names")
  have "extends (fst (h1, 0::nat)) h" by (simp add: h1_def extends_def)
  then have "extends (fst (foldl (remove_step u) (h1, 0) names)) h"
    by (rule remove_loop_extends) (simp add: u_def)
  then have x2: "extends h2 h" by (simp add: loop)
  define upd where "upd = length h2"
  define h3 where "h3 = h2 @ [HObj (entries_at h2 existing)]"
  have x3: "extends h3 h" and fresh: "length h \<le> upd"
    using x2 extends_length [OF x2] by (simp_all add: h3_def extends_def upd_def)
  have "removeServers_at h existing names k =
      (if n = 0 then (h2, existing, 0)
       else if length (entries_at h3 u) = 0 then (delete_prop h3 upd k, upd, n)
       else (write_prop h3 upd k (HRef u), upd, n))"
    unfolding removeServers_at_def Some
    by (simp add: alloc_def Let_def u_def [symmetric] h1_def [symmetric] loop
          upd_def [symmetric] h3_def [symmetric])
  then show ?thesis
    using x2 x3 fresh by (simp add: extends_write extends_delete)
qed

text \<open>
  C10. Neither function mutates its input: in the store after a call of mergeServers or
  of removeServers, every object that was in the store before the call (the document, its
  section mapping, the entries of the section) is as it was. What the functions write,
  they write to objects they have allocated themselves.
\<close>

theorem merge_and_remove_do_not_mutate:
  "extends (fst (mergeServers_at h existing incoming k)) h
   \<and> extends (fst (removeServers_at h existing names k)) h"
  using mergeServers_at_extends removeServers_at_extends by blast

theorem merge_and_remove_do_not_mutate_witness:
  "extends (fst (mergeServers_at
       [HObj [(''theme'', HStr ''dark''), (''servers'', HRef 1)], HObj [(''aria'', HRef 2)],
        HObj [(''command'', HStr ''node'')]] 0
       [\<lparr>h_name = ''wcag'', h_command = HStr ''node'', h_args = None,
         h_type = Some (HStr ''stdio'')\<rparr>] ''servers''))
     [HObj [(''theme'', HStr ''dark''), (''servers'', HRef 1)], HObj [(''aria'', HRef 2)],
      HObj [(''command'', HStr ''node'')]]
   \<and> extends (fst (removeServers_at
       [HObj [(''theme'', HStr ''dark''), (''servers'', HRef 1)], HObj [(''aria'', HRef 2)],
        HObj [(''command'', HStr ''node'')]] 0 [''aria''] ''servers''))
     [HObj [(''theme'', HStr ''dark''), (''servers'', HRef 1)], HObj [(''aria'', HRef 2)],
      HObj [(''command'', HStr ''node'')]]"
  by (rule merge_and_remove_do_not_mutate)

text \<open>The copies are shallow. In the store of the example the merged document is a new
  object, its section is a new object, and the entry of the server that was there before
  is the address it was: the configuration object is shared with the input.\<close>

lemma merge_copies_are_shallow:
  "mergeServers_at
       [HObj [(''theme'', HStr ''dark''), (''servers'', HRef 1)], HObj [(''aria'', HRef 2)],
        HObj [(''command'', HStr ''node'')]] 0
       [\<lparr>h_name = ''wcag'', h_command = HStr ''node'', h_args = None,
         h_type = Some (HStr ''stdio'')\<rparr>] ''servers''
   = ([HObj [(''theme'', HStr ''dark''), (''servers'', HRef 1)], HObj [(''aria'', HRef 2)],
       HObj [(''command'', HStr ''node'')],
       HObj [(''theme'', HStr ''dark''), (''servers'', HRef 4)],
       HObj [(''aria'', HRef 2), (''wcag'', HRef 6)],
       HArr [],
       HObj [(''command'', HStr ''node''), (''args'', HRef 5), (''type'', HStr ''stdio'')]],
      3)"
  by code_simp

text \<open>On values, the same call gives the same document.\<close>

lemma merge_on_values:
  "mergeServers
     [(''theme'', JStr ''dark''), (''servers'', JObj [(''aria'', JObj [(''command'', JStr ''node'')])])]
     [\<lparr>name = ''wcag'', command = JStr ''node'', args = None, type = Some (JStr ''stdio'')\<rparr>]
     ''servers''
   = [(''theme'', JStr ''dark''),
      (''servers'', JObj [(''aria'', JObj [(''command'', JStr ''node'')]),
                          (''wcag'', JObj [(''command'', JStr ''node''), (''args'', JArr []),
                                           (''type'', JStr ''stdio'')])])]"
  by code_simp

lemma remove_copies_are_shallow:
  "removeServers_at
       [HObj [(''theme'', HStr ''dark''), (''servers'', HRef 1)],
        HObj [(''aria'', HRef 2), (''wcag'', HRef 3)],
        HObj [(''command'', HStr ''node'')], HObj [(''command'', HStr ''npx'')]] 0
       [''aria''] ''servers''
   = ([HObj [(''theme'', HStr ''dark''), (''servers'', HRef 1)],
       HObj [(''aria'', HRef 2), (''wcag'', HRef 3)],
       HObj [(''command'', HStr ''node'')], HObj [(''command'', HStr ''npx'')],
       HObj [(''wcag'', HRef 3)],
       HObj [(''theme'', HStr ''dark''), (''servers'', HRef 4)]],
      5, 1)"
  by code_simp


section \<open>Properties of the path resolution\<close>

lemma hostApplicationPaths_ignore_overrides:
  "hostApplicationPaths env root (h\<lparr>host_globalPaths := g\<rparr>) = hostApplicationPaths env root h"
  by (simp add: hostApplicationPaths_def)

lemma hostApplicationPaths_global:
  "mcpConfig (hostApplicationPaths env root h) =
     path_join env [homedir env, or_else (mcpConfigFile h) (''.'' @ host_id h @ ''/mcp.json'')]"
  "skillsDir (hostApplicationPaths env root h) =
     path_join env [homedir env, or_else (skillsFolder h) (''.'' @ host_id h @ ''/skills'')]"
  by (simp_all add: hostApplicationPaths_def Let_def)

lemma getHostApplicationPaths_any_platform:
  "getHostApplicationPaths env root pf hosts = getHostApplicationPaths env root pf' hosts"
  by (simp add: getHostApplicationPaths_def)

lemma idePaths_global_overridden:
  assumes "host_globalPaths h = Some gp"
      and "isWindows pf \<and> Win gp = Some ov \<or> \<not> isWindows pf \<and> isMac pf \<and> macOS gp = Some ov"
  shows "mcpConfig (idePaths env root pf h) =
           path_join env [getAppSupportDir env pf,
             or_else (o_mcpConfigFile ov) (or_else (mcpConfigFile h) (''.'' @ host_id h @ ''/mcp.json''))]"
    and "skillsDir (idePaths env root pf h) =
           path_join env [getAppSupportDir env pf,
             or_else (o_skillsFolder ov) (or_else (skillsFolder h) (''.'' @ host_id h @ ''/skills''))]"
  using assms by (auto simp: idePaths_def Let_def)

lemma idePaths_no_overrides:
  assumes "host_globalPaths h = None"
  shows "idePaths env root pf h = hostApplicationPaths env root h"
  using assms by (simp add: idePaths_def hostApplicationPaths_def Let_def)

text \<open>What the loops leave under the id of a host, when the ids are distinct.\<close>

lemma map_of_obj_set:
  "map_of (obj_set ob k v) k' =
     (if k' = k \<and> \<not> (k = ''__proto__'' \<and> k \<notin> fst ` set ob) then Some v else map_of ob k')"
  by (auto simp: obj_set_def define_prop_def update_conv')

lemma assign_loop_other:
  "k \<notin> host_id ` set hosts \<Longrightarrow>
   map_of (foldl (\<lambda>paths h. obj_set paths (host_id h) (f h)) acc hosts) k = map_of acc k"
  by (induction hosts arbitrary: acc) (auto simp: map_of_obj_set)

lemma assign_loop_lookup:
  assumes "h \<in> set hosts" "distinct (map host_id hosts)" "host_id h \<noteq> ''__proto__''"
  shows "map_of (foldl (\<lambda>paths h. obj_set paths (host_id h) (f h)) acc hosts) (host_id h) =
         Some (f h)"
  using assms(1,2)
proof (induction hosts arbitrary: acc)
  case Nil
  then show ?case by simp
next
  case (Cons x hosts)
  show ?case
  proof (cases "h \<in> set hosts")
    case True
    with Cons show ?thesis by simp
  next
    case False
    with Cons.prems have x: "x = h" and "host_id h \<notin> host_id ` set hosts" by auto
    then show ?thesis using assms(3) by (simp add: assign_loop_other map_of_obj_set)
  qed
qed

lemma getIdePaths_lookup:
  assumes "h \<in> set hosts" "distinct (map host_id hosts)" "host_id h \<noteq> ''__proto__''"
  shows "map_of (getIdePaths env root pf hosts) (host_id h) = Some (idePaths env root pf h)"
  unfolding getIdePaths_def by (rule assign_loop_lookup [OF assms])

lemma getHostApplicationPaths_lookup:
  assumes "h \<in> set hosts" "distinct (map host_id hosts)" "host_id h \<noteq> ''__proto__''"
  shows "map_of (getHostApplicationPaths env root pf hosts) (host_id h) =
         Some (hostApplicationPaths env root h)"
  unfolding getHostApplicationPaths_def by (rule assign_loop_lookup [OF assms])

lemma mac_example_paths:
  "getIdePaths mac_env ''/work/app'' (getPlatform ''darwin'') [claude_host] =
     [(''claude'',
       \<lparr>hp_name = ''Claude Desktop'',
        mcpConfig = ''/Users/dev/Library/Application Support/Claude/claude_desktop_config.json'',
        localMcpConfig = ''/work/app/.claude/mcp.json'',
        hp_mcpServerKey = ''mcpServers'',
        skillsDir = ''/Users/dev/Library/Application Support/Claude/skills'',
        localSkillsDir = ''/work/app/.claude/skills''\<rparr>)]"
  "getHostApplicationPaths mac_env ''/work/app'' (getPlatform ''darwin'') [claude_host] =
     [(''claude'',
       \<lparr>hp_name = ''Claude Desktop'',
        mcpConfig = ''/Users/dev/.claude/mcp.json'',
        localMcpConfig = ''/work/app/.claude/mcp.json'',
        hp_mcpServerKey = ''mcpServers'',
        skillsDir = ''/Users/dev/.claude/skills'',
        localSkillsDir = ''/work/app/.claude/skills''\<rparr>)]"
  by (simp_all add: getIdePaths_def idePaths_def getHostApplicationPaths_def
        hostApplicationPaths_def mac_env_def claude_host_def getPlatform_def
        getAppSupportDir_def or_else_def plain_join_def Let_def obj_set_def define_prop_def)

text \<open>
  C6. The two resolutions of the global paths of a host are not equivalent. Take a list
  of hosts with distinct ids and a host \<open>h\<close> of it (its id is not \<^verbatim>\<open>__proto__\<close>, a name
  under which the assignment of either function adds no property). If \<open>h\<close> declares overrides for the running platform,
  Windows or macOS, the entry that getIdePaths returns for \<open>h\<close> has as global config path
  and global skills path the application-support directory joined with the names of the
  overrides (the default names where an override is missing). The entry that
  getHostApplicationPaths returns for \<open>h\<close> always has the home directory joined with the
  default names, on every platform and whatever \<open>h\<close> declares. On macOS, for the host
  \<open>claude_host\<close>, which declares overrides, the two functions return the entries written
  out below, and both the global config paths and the global skills paths differ.
\<close>

theorem global_path_resolutions_differ:
  assumes "h \<in> set hosts" "distinct (map host_id hosts)" "host_id h \<noteq> ''__proto__''"
  shows
   "(host_globalPaths h = Some gp
      \<and> (isWindows pf \<and> Win gp = Some ov \<or> \<not> isWindows pf \<and> isMac pf \<and> macOS gp = Some ov)
    \<longrightarrow> map_option mcpConfig (map_of (getIdePaths env root pf hosts) (host_id h)) =
          Some (path_join env [getAppSupportDir env pf,
            or_else (o_mcpConfigFile ov)
              (or_else (mcpConfigFile h) (''.'' @ host_id h @ ''/mcp.json''))])
        \<and> map_option skillsDir (map_of (getIdePaths env root pf hosts) (host_id h)) =
          Some (path_join env [getAppSupportDir env pf,
            or_else (o_skillsFolder ov)
              (or_else (skillsFolder h) (''.'' @ host_id h @ ''/skills''))]))
   \<and> map_option mcpConfig (map_of (getHostApplicationPaths env root pf hosts) (host_id h)) =
       Some (path_join env [homedir env,
         or_else (mcpConfigFile h) (''.'' @ host_id h @ ''/mcp.json'')])
   \<and> map_option skillsDir (map_of (getHostApplicationPaths env root pf hosts) (host_id h)) =
       Some (path_join env [homedir env,
         or_else (skillsFolder h) (''.'' @ host_id h @ ''/skills'')])
   \<and> getIdePaths mac_env ''/work/app'' (getPlatform ''darwin'') [claude_host] =
       [(''claude'',
         \<lparr>hp_name = ''Claude Desktop'',
          mcpConfig = ''/Users/dev/Library/Application Support/Claude/claude_desktop_config.json'',
          localMcpConfig = ''/work/app/.claude/mcp.json'',
          hp_mcpServerKey = ''mcpServers'',
          skillsDir = ''/Users/dev/Library/Application Support/Claude/skills'',
          localSkillsDir = ''/work/app/.claude/skills''\<rparr>)]
   \<and> getHostApplicationPaths mac_env ''/work/app'' (getPlatform ''darwin'') [claude_host] =
       [(''claude'',
         \<lparr>hp_name = ''Claude Desktop'',
          mcpConfig = ''/Users/dev/.claude/mcp.json'',
          localMcpConfig = ''/work/app/.claude/mcp.json'',
          hp_mcpServerKey = ''mcpServers'',
          skillsDir = ''/Users/dev/.claude/skills'',
          localSkillsDir = ''/work/app/.claude/skills''\<rparr>)]
   \<and> map_option mcpConfig
        (map_of (getIdePaths mac_env ''/work/app'' (getPlatform ''darwin'') [claude_host]) ''claude'')
       \<noteq> map_option mcpConfig
        (map_of (getHostApplicationPaths mac_env ''/work/app'' (getPlatform ''darwin'') [claude_host])
           ''claude'')
   \<and> map_option skillsDir
        (map_of (getIdePaths mac_env ''/work/app'' (getPlatform ''darwin'') [claude_host]) ''claude'')
       \<noteq> map_option skillsDir
        (map_of (getHostApplicationPaths mac_env ''/work/app'' (getPlatform ''darwin'') [claude_host])
           ''claude'')"
proof (intro conjI impI)
  assume ov: "host_globalPaths h = Some gp
      \<and> (isWindows pf \<and> Win gp = Some ov \<or> \<not> isWindows pf \<and> isMac pf \<and> macOS gp = Some ov)"
  then have "mcpConfig (idePaths env root pf h) =
          path_join env [getAppSupportDir env pf,
            or_else (o_mcpConfigFile ov)
              (or_else (mcpConfigFile h) (''.'' @ host_id h @ ''/mcp.json''))]"
    by (intro idePaths_global_overridden(1) [of h gp]) simp_all
  then show "map_option mcpConfig (map_of (getIdePaths env root pf hosts) (host_id h)) =
          Some (path_join env [getAppSupportDir env pf,
            or_else (o_mcpConfigFile ov)
              (or_else (mcpConfigFile h) (''.'' @ host_id h @ ''/mcp.json''))])"
    by (simp add: getIdePaths_lookup [OF assms])
  from ov have "skillsDir (idePaths env root pf h) =
          path_join env [getAppSupportDir env pf,
            or_else (o_skillsFolder ov)
              (or_else (skillsFolder h) (''.'' @ host_id h @ ''/skills''))]"
    by (intro idePaths_global_overridden(2) [of h gp]) simp_all
  then show "map_option skillsDir (map_of (getIdePaths env root pf hosts) (host_id h)) =
          Some (path_join env [getAppSupportDir env pf,
            or_else (o_skillsFolder ov)
              (or_else (skillsFolder h) (''.'' @ host_id h @ ''/skills''))])"
    by (simp add: getIdePaths_lookup [OF assms])
next
  show "map_option mcpConfig (map_of (getHostApplicationPaths env root pf hosts) (host_id h)) =
       Some (path_join env [homedir env,
         or_else (mcpConfigFile h) (''.'' @ host_id h @ ''/mcp.json'')])"
    by (simp add: getHostApplicationPaths_lookup [OF assms] hostApplicationPaths_global)
  show "map_option skillsDir (map_of (getHostApplicationPaths env root pf hosts) (host_id h)) =
       Some (path_join env [homedir env,
         or_else (skillsFolder h) (''.'' @ host_id h @ ''/skills'')])"
    by (simp add: getHostApplicationPaths_lookup [OF assms] hostApplicationPaths_global)
  show "getIdePaths mac_env ''/work/app'' (getPlatform ''darwin'') [claude_host] =
       [(''claude'',
         \<lparr>hp_name = ''Claude Desktop'',
          mcpConfig = ''/Users/dev/Library/Application Support/Claude/claude_desktop_config.json'',
          localMcpConfig = ''/work/app/.claude/mcp.json'',
          hp_mcpServerKey = ''mcpServers'',
          skillsDir = ''/Users/dev/Library/Application Support/Claude/skills'',
          localSkillsDir = ''/work/app/.claude/skills''\<rparr>)]"
    by (rule mac_example_paths)
  show "getHostApplicationPaths mac_env ''/work/app'' (getPlatform ''darwin'') [claude_host] =
       [(''claude'',
         \<lparr>hp_name = ''Claude Desktop'',
          mcpConfig = ''/Users/dev/.claude/mcp.json'',
          localMcpConfig = ''/work/app/.claude/mcp.json'',
          hp_mcpServerKey = ''mcpServers'',
          skillsDir = ''/Users/dev/.claude/skills'',
          localSkillsDir = ''/work/app/.claude/skills''\<rparr>)]"
    by (rule mac_example_paths)
  show "map_option mcpConfig
        (map_of (getIdePaths mac_env ''/work/app'' (getPlatform ''darwin'') [claude_host]) ''claude'')
       \<noteq> map_option mcpConfig
        (map_of (getHostApplicationPaths mac_env ''/work/app'' (getPlatform ''darwin'') [claude_host])
           ''claude'')"
    unfolding mac_example_paths by simp
  show "map_option skillsDir
        (map_of (getIdePaths mac_env ''/work/app'' (getPlatform ''darwin'') [claude_host]) ''claude'')
       \<noteq> map_option skillsDir
        (map_of (getHostApplicationPaths mac_env ''/work/app'' (getPlatform ''darwin'') [claude_host])
           ''claude'')"
    unfolding mac_example_paths by simp
qed

theorem global_path_resolutions_differ_witness:
  "claude_host \<in> set [claude_host]
   \<and> distinct (map host_id [claude_host])
   \<and> host_id claude_host = ''claude''
   \<and> host_globalPaths claude_host
     = Some \<lparr>Win = Some \<lparr>o_skillsFolder = None,
                          o_mcpConfigFile = Some ''Claude/claude_desktop_config.json''\<rparr>,
             macOS = Some \<lparr>o_skillsFolder = Some ''Claude/skills'',
                            o_mcpConfigFile = Some ''Claude/claude_desktop_config.json''\<rparr>\<rparr>
   \<and> isMac (getPlatform ''darwin'')
   \<and> map_option mcpConfig
        (map_of (getIdePaths mac_env ''/work/app'' (getPlatform ''darwin'') [claude_host]) ''claude'')
       = Some ''/Users/dev/Library/Application Support/Claude/claude_desktop_config.json''
   \<and> map_option skillsDir
        (map_of (getIdePaths mac_env ''/work/app'' (getPlatform ''darwin'') [claude_host]) ''claude'')
       = Some ''/Users/dev/Library/Application Support/Claude/skills''
   \<and> map_option mcpConfig
        (map_of (getHostApplicationPaths mac_env ''/work/app'' (getPlatform ''darwin'') [claude_host])
           ''claude'')
       = Some ''/Users/dev/.claude/mcp.json''
   \<and> map_option skillsDir
        (map_of (getHostApplicationPaths mac_env ''/work/app'' (getPlatform ''darwin'') [claude_host])
           ''claude'')
       = Some ''/Users/dev/.claude/skills''"
proof -
  have h: "claude_host \<in> set [claude_host]" "distinct (map host_id [claude_host])"
    "host_id claude_host \<noteq> ''__proto__''"
    by (simp_all add: claude_host_def)
  have ov: "host_globalPaths claude_host
     = Some \<lparr>Win = Some \<lparr>o_skillsFolder = None,
                          o_mcpConfigFile = Some ''Claude/claude_desktop_config.json''\<rparr>,
             macOS = Some \<lparr>o_skillsFolder = Some ''Claude/skills'',
                            o_mcpConfigFile = Some ''Claude/claude_desktop_config.json''\<rparr>\<rparr>"
    "isMac (getPlatform ''darwin'')" "\<not> isWindows (getPlatform ''darwin'')"
    "host_id claude_host = ''claude''"
    by (simp_all add: claude_host_def getPlatform_def)
  from global_path_resolutions_differ
    [OF h, where gp = "\<lparr>Win = Some \<lparr>o_skillsFolder = None,
                         o_mcpConfigFile = Some ''Claude/claude_desktop_config.json''\<rparr>,
                  macOS = Some \<lparr>o_skillsFolder = Some ''Claude/skills'',
                         o_mcpConfigFile = Some ''Claude/claude_desktop_config.json''\<rparr>\<rparr>"
       and pf = "getPlatform ''darwin''"
       and ov = "\<lparr>o_skillsFolder = Some ''Claude/skills'',
                  o_mcpConfigFile = Some ''Claude/claude_desktop_config.json''\<rparr>"
       and env = mac_env and root = "''/work/app''"]
  show ?thesis
    using h(1,2) ov
    by (simp add: claude_host_def getPlatform_def mac_env_def getAppSupportDir_def or_else_def
          plain_join_def)
qed

lemma linux_resolutions_agree:
  "getIdePaths env root (getPlatform ''linux'') hosts =
   getHostApplicationPaths env root (getPlatform ''linux'') hosts"
proof -
  have "idePaths env root (getPlatform ''linux'') h = hostApplicationPaths env root h" for h
    by (simp add: idePaths_def hostApplicationPaths_def getPlatform_def Let_def
             split: option.splits)
  then show ?thesis by (simp add: getIdePaths_def getHostApplicationPaths_def)
qed

section \<open>Properties of the provisioning\<close>

text \<open>
  C5. When the directory exists and holds no \<^verbatim>\<open>.git\<close>, ensureRepo fails with the error
  that the target is not a git repository, and the state after the call is the state
  before it: the world is untouched and no process has been started.
\<close>

theorem ensureRepo_not_a_repo:
  assumes "pathExists sy st d" "\<not> pathExists sy st (sys_join sy [d, ''.git''])"
  shows "ensureRepo sy url d st =
         (Inl (Error (''Target exists but is not a git repo: '' @ d)), st)"
  using assms by (simp add: ensureRepo_def Let_def)

theorem ensureRepo_not_a_repo_witness:
  "pathExists list_sys \<lparr>world = [''/srv/data'', ''/srv/data/notes.txt''], started = [], shown = []\<rparr>
     ''/srv/data''
   \<and> \<not> pathExists list_sys \<lparr>world = [''/srv/data'', ''/srv/data/notes.txt''], started = [], shown = []\<rparr>
         (sys_join list_sys [''/srv/data'', ''.git''])
   \<and> ensureRepo list_sys ''https://example.org/r.git'' ''/srv/data''
         \<lparr>world = [''/srv/data'', ''/srv/data/notes.txt''], started = [], shown = []\<rparr>
       = (Inl (Error ''Target exists but is not a git repo: /srv/data''),
          \<lparr>world = [''/srv/data'', ''/srv/data/notes.txt''], started = [], shown = []\<rparr>)"
proof -
  let ?st = "\<lparr>world = [''/srv/data'', ''/srv/data/notes.txt''], started = [], shown = []\<rparr>"
  have a: "pathExists list_sys ?st ''/srv/data''"
    by (simp add: pathExists_def list_sys_def)
  have b: "\<not> pathExists list_sys ?st (sys_join list_sys [''/srv/data'', ''.git''])"
    by (simp add: pathExists_def list_sys_def plain_join_def)
  from ensureRepo_not_a_repo [OF a b, of "''https://example.org/r.git''"] a b
  show ?thesis by simp
qed

text \<open>For contrast, the same call on a directory that is not there clones into it.\<close>

lemma ensureRepo_clones:
  "ensureRepo list_sys ''https://example.org/r.git'' ''/srv/repo''
     \<lparr>world = [''/srv/data''], started = [], shown = []\<rparr>
   = (Inr \<lparr>action = ''cloned'', dir = ''/srv/repo''\<rparr>,
      \<lparr>world = [''/srv/data'', ''/srv/repo'', ''/srv/repo/.git''],
       started = [(''git'', [''clone'', ''--depth'', ''1'', ''https://example.org/r.git'', ''/srv/repo''])],
       shown = []\<rparr>)"
  by (simp add: ensureRepo_def pathExists_def list_sys_def run_inherit_def Let_def)

lemma buildGitRepo_fails_iff:
  "success (fst (buildGitRepo sy rp cmd st))
   \<longleftrightarrow> c_end (fst (spawn sy cmd [] (Some rp) (world st))) = Close (Some 0)"
  by (auto simp: buildGitRepo_def run_pipe_def Let_def
           split: prod.splits child_end.splits sum.splits js_error.splits if_splits)

text \<open>
  C8. In an invocation of installGitMcp that reaches the clone and in which the clone
  succeeds, a build for which buildGitRepo returns \<open>success = False\<close> does not make the
  invocation fail: the warning is printed, nothing else is done to the world, and the
  call returns the server descriptor with the name, type, command and arguments of the
  configuration and the path of the repository.
\<close>

theorem build_failure_is_a_warning:
  assumes prep: "confirm_overwrite sy (mc_name mcp) (getRepoDir scope root pf (mc_name mcp)) st
                 = (Inr (), st1)"
      and clone: "cloneGitRepo sy (mc_repoUrl mcp) (getRepoDir scope root pf (mc_name mcp)) st1
                 = (Inr cl, st2)"
      and build: "buildGitRepo sy (getRepoDir scope root pf (mc_name mcp)) (mc_buildCommand mcp) st2
                 = (br, st3)"
      and failed: "\<not> success br"
  shows "\<exists>st'. installGitMcp sy mcp scope root pf getRepoDir st =
           (Inr \<lparr>sd_name = mc_name mcp, sd_type = mc_type mcp, sd_command = mc_command mcp,
                 sd_args = mc_args mcp,
                 sd_repoPath = getRepoDir scope root pf (mc_name mcp)\<rparr>, st')
         \<and> Warn ''Build command failed but continuing with installation'' \<in> set (shown st')
         \<and> world st' = world st3 \<and> started st' = started st3"
  using assms
  by (simp add: installGitMcp_def Let_def warn_def console_error_def)


theorem build_failure_is_a_warning_witness:
  "\<not> success (fst (buildGitRepo list_sys ''/work/app/.a11y-devkit/mcp-repos/wcag''
        ''npm install && npm run build''
        \<lparr>world = [''/work/app'', ''/work/app/.a11y-devkit/mcp-repos/wcag'',
                  ''/work/app/.a11y-devkit/mcp-repos/wcag/.git''],
         started = [(''git'', [''clone'', ''https://example.org/wcag-mcp.git'',
                      ''/work/app/.a11y-devkit/mcp-repos/wcag''])],
         shown = []\<rparr>))
   \<and> (\<exists>st'. installGitMcp list_sys wcag_mcp ''local'' ''/work/app'' (getPlatform ''darwin'')
              (getMcpRepoDir mac_env) \<lparr>world = [''/work/app''], started = [], shown = []\<rparr>
            = (Inr \<lparr>sd_name = ''wcag'', sd_type = Some (JStr ''stdio''),
                    sd_command = Some (JStr ''node''), sd_args = Some (JArr [JStr ''index.js'']),
                    sd_repoPath = ''/work/app/.a11y-devkit/mcp-repos/wcag''\<rparr>, st')
          \<and> Warn ''Build command failed but continuing with installation'' \<in> set (shown st'))"
proof -
  let ?rp = "''/work/app/.a11y-devkit/mcp-repos/wcag''"
  let ?st = "\<lparr>world = [''/work/app''], started = [], shown = []\<rparr> :: string list state"
  let ?st2 = "\<lparr>world = [''/work/app'', ?rp, ?rp @ ''/.git''],
               started = [(''git'', [''clone'', ''https://example.org/wcag-mcp.git'', ?rp])],
               shown = []\<rparr> :: string list state"
  let ?br = "\<lparr>success = False, b_stdout = [],
              b_stderr = ''npm install && npm run build  failed with code 1: npm ERR!''\<rparr>"
  let ?st3 = "?st2\<lparr>started := started ?st2 @ [(''npm install && npm run build'', [])]\<rparr>"
  have rp: "getMcpRepoDir mac_env ''local'' ''/work/app'' (getPlatform ''darwin'') (mc_name wcag_mcp) = ?rp"
    by (simp add: getMcpRepoDir_def mac_env_def plain_join_def wcag_mcp_def)
  have prep: "confirm_overwrite list_sys (mc_name wcag_mcp)
                (getMcpRepoDir mac_env ''local'' ''/work/app'' (getPlatform ''darwin'') (mc_name wcag_mcp)) ?st
              = (Inr (), ?st)"
    unfolding rp by (simp add: confirm_overwrite_def pathExists_def list_sys_def)
  have clone: "cloneGitRepo list_sys (mc_repoUrl wcag_mcp)
                (getMcpRepoDir mac_env ''local'' ''/work/app'' (getPlatform ''darwin'') (mc_name wcag_mcp)) ?st
              = (Inr \<lparr>cl_stdout = [], cl_stderr = ''Cloning...''\<rparr>, ?st2)"
    unfolding rp by (simp add: cloneGitRepo_def run_pipe_def list_sys_def wcag_mcp_def)
  have code: "code_string (Some 1) = ''1''"
    by code_simp
  have build: "buildGitRepo list_sys
                (getMcpRepoDir mac_env ''local'' ''/work/app'' (getPlatform ''darwin'') (mc_name wcag_mcp))
                (mc_buildCommand wcag_mcp) ?st2 = (?br, ?st3)"
    unfolding rp by (simp add: buildGitRepo_def run_pipe_def list_sys_def wcag_mcp_def code)
  have failed: "\<not> success ?br" by simp
  have b2: "\<not> success (fst (buildGitRepo list_sys ?rp ''npm install && npm run build'' ?st2))"
    using build unfolding rp by (simp add: wcag_mcp_def)
  from build_failure_is_a_warning
         [where sy = list_sys and mcp = wcag_mcp and scope = "''local''" and root = "''/work/app''"
            and pf = "getPlatform ''darwin''" and getRepoDir = "getMcpRepoDir mac_env",
          OF prep clone build failed]
  obtain st' where
    "installGitMcp list_sys wcag_mcp ''local'' ''/work/app'' (getPlatform ''darwin'')
       (getMcpRepoDir mac_env) ?st
     = (Inr \<lparr>sd_name = mc_name wcag_mcp, sd_type = mc_type wcag_mcp,
             sd_command = mc_command wcag_mcp, sd_args = mc_args wcag_mcp, sd_repoPath = ?rp\<rparr>, st')"
    "Warn ''Build command failed but continuing with installation'' \<in> set (shown st')"
    unfolding rp by blast
  then have "\<exists>st'. installGitMcp list_sys wcag_mcp ''local'' ''/work/app'' (getPlatform ''darwin'')
              (getMcpRepoDir mac_env) ?st
            = (Inr \<lparr>sd_name = ''wcag'', sd_type = Some (JStr ''stdio''),
                    sd_command = Some (JStr ''node''), sd_args = Some (JArr [JStr ''index.js'']),
                    sd_repoPath = ?rp\<rparr>, st')
          \<and> Warn ''Build command failed but continuing with installation'' \<in> set (shown st')"
    by (intro exI [of _ st']) (simp add: wcag_mcp_def)
  with b2 show ?thesis by simp
qed

end
